theory Spec2Isabelle
  imports Complex_Main "HOL-Library.Signed_Division" "HOL-Library.Stream"
begin

section \<open>The lattice gauge-field update engine of \<^verbatim>\<open>src/lib/lattice.cpp\<close>\<close>

text \<open>
  Conventions of the embedding.
  \<^item> A C++ \<^verbatim>\<open>int\<close> is a HOL \<open>int\<close> together with the range check \<open>int_ok\<close> (32 bits,
    two's complement); an addition or subtraction whose mathematical result leaves the
    range is signed overflow, which C++ leaves undefined.
  \<^item> A C++ \<^verbatim>\<open>double\<close> is a HOL \<open>real\<close> and \<^verbatim>\<open>complex<double>\<close> a HOL \<open>complex\<close>:
    rounding is not modelled in sums, products and traces. The two double operations
    whose rounding decides a branch of \<open>update_link\<close>, \<^verbatim>\<open>exp\<close> and the quotient
    \<^verbatim>\<open>double(rand()) / double(RAND_MAX)\<close>, are parameters (\<open>cstd\<close>), and so is the
    \<^verbatim>\<open>householderQ\<close> of Eigen.
  \<^item> Where the source has undefined behaviour or does not return, the model returns
    \<open>Inl\<close> of a \<open>fault\<close> naming the cause; the source itself never checks for any of them.
\<close>

subsection \<open>Faults and machine integers\<close>

datatype fault = NonTermination | SignedOverflow | DivisionByZero | OutOfBounds | NotANumber

definition int_ok :: "int \<Rightarrow> bool" where
  "int_ok x \<longleftrightarrow> - 2147483648 \<le> x \<and> x \<le> 2147483647"

subsection \<open>\<^verbatim>\<open>lattice::mod\<close>\<close>

text \<open>
  \<^verbatim>\<open>while(n < 0) { n += d; }  return n%d;\<close>
  The loop is \<open>mod_loop\<close>; it need not terminate (\<open>d = 0\<close> with \<open>n < 0\<close>), in which case
  \<open>mod_loop\<close> is \<open>None\<close>. The remainder of C++ truncates towards zero (\<open>smod\<close>), and a zero
  divisor is undefined.
\<close>

partial_function (option) mod_loop :: "int \<Rightarrow> int \<Rightarrow> (fault + int) option" where
  "mod_loop n d =
     (if n < 0
      then (if int_ok (n + d) then mod_loop (n + d) d else Some (Inl SignedOverflow))
      else Some (Inr n))"

definition lattice_mod :: "int \<Rightarrow> int \<Rightarrow> fault + int" where
  "lattice_mod n d =
     (case mod_loop n d of
        None \<Rightarrow> Inl NonTermination
      | Some (Inl e) \<Rightarrow> Inl e
      | Some (Inr m) \<Rightarrow> if d = 0 then Inl DivisionByZero else Inr (m smod d))"

subsection \<open>Sequencing of fallible steps\<close>

definition bind_f :: "fault + 'a \<Rightarrow> ('a \<Rightarrow> fault + 'b) \<Rightarrow> fault + 'b" where
  "bind_f x f = (case x of Inl e \<Rightarrow> Inl e | Inr v \<Rightarrow> f v)"

definition add_int :: "int \<Rightarrow> int \<Rightarrow> fault + int" where
  "add_int a b = (if int_ok (a + b) then Inr (a + b) else Inl SignedOverflow)"

subsection \<open>\<^verbatim>\<open>Matrix3cd\<close>: 3 by 3 complex matrices\<close>

text \<open>
  Eigen's fixed-size matrix, row by row, with the operations the source uses:
  \<^verbatim>\<open>Identity()\<close>, \<^verbatim>\<open>operator*\<close>, \<^verbatim>\<open>adjoint()\<close>, \<^verbatim>\<open>trace()\<close>; \<open>determinant\<close> is used only
  to say what special-unitary means.
\<close>

datatype Matrix3cd =
  Mat complex complex complex  complex complex complex  complex complex complex

definition Identity :: Matrix3cd where
  "Identity = Mat 1 0 0  0 1 0  0 0 1"

fun mmul :: "Matrix3cd \<Rightarrow> Matrix3cd \<Rightarrow> Matrix3cd" where
  "mmul (Mat a11 a12 a13 a21 a22 a23 a31 a32 a33) (Mat b11 b12 b13 b21 b22 b23 b31 b32 b33) =
     Mat (a11 * b11 + a12 * b21 + a13 * b31) (a11 * b12 + a12 * b22 + a13 * b32)
           (a11 * b13 + a12 * b23 + a13 * b33)
         (a21 * b11 + a22 * b21 + a23 * b31) (a21 * b12 + a22 * b22 + a23 * b32)
           (a21 * b13 + a22 * b23 + a23 * b33)
         (a31 * b11 + a32 * b21 + a33 * b31) (a31 * b12 + a32 * b22 + a33 * b32)
           (a31 * b13 + a32 * b23 + a33 * b33)"

fun adjoint :: "Matrix3cd \<Rightarrow> Matrix3cd" where
  "adjoint (Mat a11 a12 a13 a21 a22 a23 a31 a32 a33) =
     Mat (cnj a11) (cnj a21) (cnj a31)
         (cnj a12) (cnj a22) (cnj a32)
         (cnj a13) (cnj a23) (cnj a33)"

fun trace :: "Matrix3cd \<Rightarrow> complex" where
  "trace (Mat a11 a12 a13 a21 a22 a23 a31 a32 a33) = a11 + a22 + a33"

fun determinant :: "Matrix3cd \<Rightarrow> complex" where
  "determinant (Mat a11 a12 a13 a21 a22 a23 a31 a32 a33) =
     a11 * (a22 * a33 - a23 * a32) - a12 * (a21 * a33 - a23 * a31)
       + a13 * (a21 * a32 - a22 * a31)"

definition unitary :: "Matrix3cd \<Rightarrow> bool" where
  "unitary U \<longleftrightarrow> mmul U (adjoint U) = Identity \<and> mmul (adjoint U) U = Identity"

definition special_unitary :: "Matrix3cd \<Rightarrow> bool" where
  "special_unitary U \<longleftrightarrow> unitary U \<and> determinant U = 1"

subsection \<open>\<^verbatim>\<open>class Lattice\<close>\<close>

text \<open>
  \<open>links\<close> is the five-fold nested vector that the constructor sizes to
  \<open>n \<times> n \<times> n \<times> n \<times> 4\<close> and nothing resizes: a store from index tuples to matrices, read and
  written through \<^verbatim>\<open>operator[]\<close>, which does not check its index. An index outside the
  sizes is an out-of-bounds access (\<open>link_at\<close>).
\<close>

type_synonym addr = "int \<times> int \<times> int \<times> int \<times> int"

record lattice =
  Ncor :: int
  Ncf :: int
  n :: int
  beta :: real
  eps :: real
  links :: "addr \<Rightarrow> Matrix3cd"
  randSU3s :: "Matrix3cd list"

definition index_ok :: "lattice \<Rightarrow> int list \<Rightarrow> int \<Rightarrow> bool" where
  "index_ok L s m \<longleftrightarrow>
     length s = 4 \<and> list_all (\<lambda>c. 0 \<le> c \<and> c < n L) s \<and> 0 \<le> m \<and> m < 4"

definition link_addr :: "int list \<Rightarrow> int \<Rightarrow> addr" where
  "link_addr s m = (s ! 0, s ! 1, s ! 2, s ! 3, m)"

definition link_at :: "lattice \<Rightarrow> int list \<Rightarrow> int \<Rightarrow> fault + Matrix3cd" where
  "link_at L s m = (if index_ok L s m then Inr (links L (link_addr s m)) else Inl OutOfBounds)"

definition link_set :: "lattice \<Rightarrow> int list \<Rightarrow> int \<Rightarrow> Matrix3cd \<Rightarrow> lattice" where
  "link_set L s m U = L\<lparr>links := (links L)(link_addr s m := U)\<rparr>"

subsection \<open>\<^verbatim>\<open>Lattice::P\<close>\<close>

text \<open>
  \<^verbatim>\<open>int mu_vec[4] = {0,0,0,0};  mu_vec[mu] = 1;\<close>
  A direction outside \<open>0..3\<close> writes outside the array.
\<close>

definition unit_vec :: "int \<Rightarrow> fault + int list" where
  "unit_vec mu =
     (if 0 \<le> mu \<and> mu < 4 then Inr ([0, 0, 0, 0][nat mu := 1]) else Inl OutOfBounds)"

text \<open>
  The loop over \<open>i = 0..3\<close>:
  \<^verbatim>\<open>site2[i] = mod(site[i], n);  os1[i] = mod(site[i] + mu_vec[i], n);
  os2[i] = mod(site[i] + nu_vec[i], n);\<close>
\<close>

fun wrap_loop ::
  "int \<Rightarrow> int list \<Rightarrow> int list \<Rightarrow> int list \<Rightarrow> fault + (int list \<times> int list \<times> int list)" where
  "wrap_loop d (c # cs) (m # ms) (v # vs) =
     bind_f (lattice_mod c d) (\<lambda>r2.
     bind_f (add_int c m) (\<lambda>cm. bind_f (lattice_mod cm d) (\<lambda>r1.
     bind_f (add_int c v) (\<lambda>cv. bind_f (lattice_mod cv d) (\<lambda>r3.
     bind_f (wrap_loop d cs ms vs) (\<lambda>(site2, os1, os2).
       Inr (r2 # site2, r1 # os1, r3 # os2)))))))"
| "wrap_loop d cs ms vs = Inr ([], [], [])"

definition P :: "lattice \<Rightarrow> int list \<Rightarrow> int \<Rightarrow> int \<Rightarrow> fault + real" where
  "P L site mu nu =
     (if length site \<noteq> 4 then Inl OutOfBounds
      else
        bind_f (unit_vec mu) (\<lambda>mu_vec.
        bind_f (unit_vec nu) (\<lambda>nu_vec.
        bind_f (wrap_loop (n L) site mu_vec nu_vec) (\<lambda>(site2, os1, os2).
        bind_f (link_at L site2 mu) (\<lambda>u1.
        bind_f (link_at L os1 nu) (\<lambda>u2.
        bind_f (link_at L os2 mu) (\<lambda>u3.
        bind_f (link_at L site2 nu) (\<lambda>u4.
          Inr (1 / 3 * Re (trace
            (mmul (mmul (mmul (mmul Identity u1) u2) (adjoint u3)) (adjoint u4))))))))))))"

subsection \<open>\<^verbatim>\<open>Lattice::Si\<close>\<close>

text \<open>
  \<open>planes\<close> collects the \<open>i\<close> of \<open>0..3\<close> with \<^verbatim>\<open>link[4] != i\<close> into \<^verbatim>\<open>int planes[3]\<close>; a
  fourth entry (when \<^verbatim>\<open>link[4]\<close> is no direction) is written outside the array. The
  second loop adds, per plane, the plaquette at the site and the one at the site with
  \<^verbatim>\<open>site[planes[i]] -= 1\<close>.
\<close>

fun Si_loop :: "lattice \<Rightarrow> int list \<Rightarrow> int list \<Rightarrow> real \<Rightarrow> fault + real" where
  "Si_loop L link [] Psum = Inr Psum"
| "Si_loop L link (p # ps) Psum =
     (let site = take 4 link in
      bind_f (P L site (link ! 4) p) (\<lambda>p1.
      bind_f (add_int (site ! nat p) (- 1)) (\<lambda>c.
      bind_f (P L (site[nat p := c]) (link ! 4) p) (\<lambda>p2.
        Si_loop L link ps (Psum + p1 + p2)))))"

definition Si :: "lattice \<Rightarrow> int list \<Rightarrow> fault + real" where
  "Si L link =
     (if length link \<noteq> 5 then Inl OutOfBounds
      else
        let planes = filter (\<lambda>i. link ! 4 \<noteq> i) [0, 1, 2, 3] in
        if length planes > 3 then Inl OutOfBounds
        else bind_f (Si_loop L link planes 0) (\<lambda>Psum. Inr (- beta L * Psum)))"

subsection \<open>What the C and C++ libraries supply\<close>

text \<open>
  \<^verbatim>\<open>RAND_MAX\<close>, \<^verbatim>\<open>exp\<close> on doubles and the division of doubles are not code of the
  repository: the functions that use them take them as a parameter, and the theorems
  hold for every such parameter. \<^verbatim>\<open>rand()\<close> is the head of a stream of draws, and the rest
  of the stream is the state of the generator afterwards.
\<close>

record cstd =
  RAND_MAX :: int
  exp_d :: "real \<Rightarrow> real"
  div_d :: "real \<Rightarrow> real \<Rightarrow> real"

definition rand :: "int stream \<Rightarrow> int \<times> int stream" where
  "rand rs = (shd rs, stl rs)"

subsection \<open>\<^verbatim>\<open>Lattice::randomSU3\<close>\<close>

text \<open>
  \<^verbatim>\<open>lattice::i\<close> is the imaginary unit and \<^verbatim>\<open>lattice::pi\<close> the literal
  \<open>3.1415926535897932384626433\<close>. Every entry of \<open>A\<close> takes two draws:
  \<^verbatim>\<open>A(i,j) = double(rand()) / double(RAND_MAX);
  A(i,j) *= exp(2 * lattice::pi * lattice::i * double(rand()) / double(RAND_MAX));\<close>
  where the second quotient is a complex number divided by a double. Then
  \<^verbatim>\<open>B = Identity() + lattice::i * eps * A\<close>, \<open>Q\<close> is the \<^verbatim>\<open>householderQ()\<close> of the
  \<^verbatim>\<open>HouseholderQR\<close> of \<open>B\<close> (Eigen's, the parameter \<open>hhQ\<close>), and the result is
  \<^verbatim>\<open>Q / pow(Q.determinant(), 1./3)\<close>. \<^verbatim>\<open>pow\<close> of a complex number and a double is the
  principal power: modulus to the power, argument times the exponent. A zero divisor
  gives entries that are not numbers.
\<close>

definition pi_d :: real where
  "pi_d = 31415926535897932384626433 / 10000000000000000000000000"

fun madd :: "Matrix3cd \<Rightarrow> Matrix3cd \<Rightarrow> Matrix3cd" where
  "madd (Mat a11 a12 a13 a21 a22 a23 a31 a32 a33) (Mat b11 b12 b13 b21 b22 b23 b31 b32 b33) =
     Mat (a11 + b11) (a12 + b12) (a13 + b13)
         (a21 + b21) (a22 + b22) (a23 + b23)
         (a31 + b31) (a32 + b32) (a33 + b33)"

fun smult :: "complex \<Rightarrow> Matrix3cd \<Rightarrow> Matrix3cd" where
  "smult c (Mat a11 a12 a13 a21 a22 a23 a31 a32 a33) =
     Mat (c * a11) (c * a12) (c * a13)
         (c * a21) (c * a22) (c * a23)
         (c * a31) (c * a32) (c * a33)"

fun mdiv :: "Matrix3cd \<Rightarrow> complex \<Rightarrow> Matrix3cd" where
  "mdiv (Mat a11 a12 a13 a21 a22 a23 a31 a32 a33) c =
     Mat (a11 / c) (a12 / c) (a13 / c)
         (a21 / c) (a22 / c) (a23 / c)
         (a31 / c) (a32 / c) (a33 / c)"

definition pow_c :: "complex \<Rightarrow> real \<Rightarrow> complex" where
  "pow_c z y = (if z = 0 then 0 else rcis (cmod z powr y) (y * Arg z))"

definition rand_entry :: "cstd \<Rightarrow> int stream \<Rightarrow> complex \<times> int stream" where
  "rand_entry E rs =
     (let (r1, rs1) = rand rs;
          a = complex_of_real (div_d E (real_of_int r1) (real_of_int (RAND_MAX E)));
          (r2, rs2) = rand rs1
      in (a * exp (2 * complex_of_real pi_d * \<i> * complex_of_real (real_of_int r2)
                     / complex_of_real (real_of_int (RAND_MAX E))), rs2))"

definition randomSU3 ::
  "cstd \<Rightarrow> (Matrix3cd \<Rightarrow> Matrix3cd) \<Rightarrow> lattice \<Rightarrow> int stream
     \<Rightarrow> fault + (Matrix3cd \<times> int stream)" where
  "randomSU3 E hhQ L rs =
     (let (a11, s1) = rand_entry E rs; (a12, s2) = rand_entry E s1; (a13, s3) = rand_entry E s2;
          (a21, s4) = rand_entry E s3; (a22, s5) = rand_entry E s4; (a23, s6) = rand_entry E s5;
          (a31, s7) = rand_entry E s6; (a32, s8) = rand_entry E s7; (a33, s9) = rand_entry E s8;
          A = Mat a11 a12 a13 a21 a22 a23 a31 a32 a33;
          B = madd Identity (smult (\<i> * complex_of_real (eps L)) A);
          Q = hhQ B;
          c = pow_c (determinant Q) (1 / 3)
      in if c = 0 then Inl NotANumber else Inr (mdiv Q c, s9))"

subsection \<open>\<^verbatim>\<open>Lattice::update_link\<close>\<close>

text \<open>
  The second draw is made only when \<open>dS > 0\<close> (\<^verbatim>\<open>&&\<close> evaluates its right operand only
  then).
\<close>

definition update_link ::
  "cstd \<Rightarrow> lattice \<Rightarrow> int stream \<Rightarrow> int list \<Rightarrow> fault + (lattice \<times> int stream)" where
  "update_link E L rs link =
     bind_f (Si L link) (\<lambda>Si_old.
     bind_f (link_at L (take 4 link) (link ! 4)) (\<lambda>linki_old.
       let (r1, rs1) = rand rs in
       if randSU3s L = [] then Inl DivisionByZero
       else
         let randSU3 = randSU3s L ! (nat r1 mod length (randSU3s L));
             L1 = link_set L (take 4 link) (link ! 4) (mmul linki_old randSU3)
         in bind_f (Si L1 link) (\<lambda>Si_new.
              let dS = Si_new - Si_old in
              if dS > 0
              then (let (r2, rs2) = rand rs1 in
                    if exp_d E (- dS) < div_d E (real_of_int r2) (real_of_int (RAND_MAX E))
                    then Inr (link_set L1 (take 4 link) (link ! 4) linki_old, rs2)
                    else Inr (L1, rs2))
              else Inr (L1, rs1))))"

subsection \<open>\<^verbatim>\<open>Lattice::update\<close>: what the calling thread does\<close>

text \<open>
  The four nested loops visit the sites \<open>i, j, k, l\<close> of \<open>0..n-1\<close> in row-major order and
  compute \<^verbatim>\<open>index = l + n * (k + n * (j + n * i))\<close>; for \<open>n \<le> 215\<close> no intermediate value
  leaves the int range. For every direction \<open>m\<close> a \<^verbatim>\<open>boost::thread\<close> running
  \<^verbatim>\<open>update_link\<close> is constructed (which starts it) and stored in \<open>even_threads[m]\<close> or
  \<open>odd_threads[m]\<close> according to \<^verbatim>\<open>index % 2\<close>. Then the first \<open>n_sites/2\<close> threads of each
  \<open>odd_threads[j]\<close> are joined, then those of each \<open>even_threads[j]\<close>. The model records the
  thread constructions and joins of the calling thread in program order; a thread is
  named by the link it was created for.
\<close>

definition sites :: "int \<Rightarrow> int list list" where
  "sites d = concat (map (\<lambda>i. concat (map (\<lambda>j. concat (map (\<lambda>k.
               map (\<lambda>l. [i, j, k, l]) [0..d - 1]) [0..d - 1])) [0..d - 1])) [0..d - 1])"

definition site_index :: "int \<Rightarrow> int list \<Rightarrow> int" where
  "site_index d s = s ! 3 + d * (s ! 2 + d * (s ! 1 + d * (s ! 0)))"

definition even_site :: "int \<Rightarrow> int list \<Rightarrow> bool" where
  "even_site d s \<longleftrightarrow> site_index d s smod 2 = 0"

datatype event = Spawn "int list" | Join "int list"

record threads =
  trace_ev :: "event list"
  even_threads :: "int list list list"
  odd_threads :: "int list list list"

definition spawn_link :: "int \<Rightarrow> int list \<Rightarrow> threads \<Rightarrow> nat \<Rightarrow> threads" where
  "spawn_link d s T m =
     (let link = s @ [int m]; T' = T\<lparr>trace_ev := trace_ev T @ [Spawn link]\<rparr> in
      if even_site d s
      then T'\<lparr>even_threads := (even_threads T')[m := even_threads T' ! m @ [link]]\<rparr>
      else T'\<lparr>odd_threads := (odd_threads T')[m := odd_threads T' ! m @ [link]]\<rparr>)"

definition spawn_site :: "int \<Rightarrow> threads \<Rightarrow> int list \<Rightarrow> threads" where
  "spawn_site d T s = foldl (spawn_link d s) T [0, 1, 2, 3]"

fun join_loop :: "int list list \<Rightarrow> nat list \<Rightarrow> event list \<Rightarrow> fault + event list" where
  "join_loop ths [] evs = Inr evs"
| "join_loop ths (i # is) evs =
     (if i < length ths then join_loop ths is (evs @ [Join (ths ! i)]) else Inl OutOfBounds)"

fun join_all :: "int list list list \<Rightarrow> nat \<Rightarrow> nat list \<Rightarrow> event list \<Rightarrow> fault + event list" where
  "join_all tss cnt [] evs = Inr evs"
| "join_all tss cnt (j # js) evs =
     bind_f (join_loop (tss ! j) [0..<cnt] evs) (\<lambda>evs'. join_all tss cnt js evs')"

definition update :: "int \<Rightarrow> fault + event list" where
  "update d =
     (if \<not> int_ok (d * d * d * d) then Inl SignedOverflow
      else
        let n_sites = d * d * d * d;
            T0 = \<lparr>trace_ev = [], even_threads = replicate 4 [], odd_threads = replicate 4 []\<rparr>;
            T = foldl (spawn_site d) T0 (sites d);
            cnt = nat (n_sites sdiv 2)
        in bind_f (join_all (odd_threads T) cnt [0, 1, 2, 3] (trace_ev T)) (\<lambda>evs.
             join_all (even_threads T) cnt [0, 1, 2, 3] evs))"

subsection \<open>\<^verbatim>\<open>Lattice::Pav\<close>\<close>

text \<open>
  \<^verbatim>\<open>int nus[6] = {0,0,0,1,1,2};  int mus[6] = {1,2,3,2,3,3};\<close> and, for every site in
  row-major order and every \<open>m\<close> of \<open>0..5\<close>, \<^verbatim>\<open>Ptot += P(site, mus[m], nus[m])\<close>. The result
  is \<^verbatim>\<open>Ptot / (pow(n,4) * 6)\<close>; for \<open>n = 0\<close> that is \<open>0.0 / 0.0\<close>, not a number.
\<close>

definition nus :: "int list" where "nus = [0, 0, 0, 1, 1, 2]"
definition mus :: "int list" where "mus = [1, 2, 3, 2, 3, 3]"

fun Pav_loop :: "lattice \<Rightarrow> (int list \<times> nat) list \<Rightarrow> real \<Rightarrow> fault + real" where
  "Pav_loop L [] Ptot = Inr Ptot"
| "Pav_loop L ((site, m) # rest) Ptot =
     bind_f (P L site (mus ! m) (nus ! m)) (\<lambda>p. Pav_loop L rest (Ptot + p))"

definition Pav :: "lattice \<Rightarrow> fault + real" where
  "Pav L =
     bind_f (Pav_loop L (concat (map (\<lambda>site. map (\<lambda>m. (site, m)) [0..<6]) (sites (n L)))) 0)
       (\<lambda>Ptot. if n L = 0 then Inl NotANumber else Inr (Ptot / (real_of_int (n L) ^ 4 * 6)))"

section \<open>The quantities of the specification\<close>

text \<open>
  The definitions of this section follow the words of the specification, not the code:
  the periodic wrap, the site \<open>x + k e\<^sub>\<mu>\<close>, the link \<open>U\<^sub>\<mu>(x)\<close> looked up at the wrapped site,
  the plaquette, the local action and the average plaquette. The theorems below compare
  the code with them.
\<close>

definition wrap :: "int \<Rightarrow> int \<Rightarrow> int" where
  "wrap d c = c mod d"

definition move :: "int list \<Rightarrow> int \<Rightarrow> int \<Rightarrow> int list" where
  "move x mu k = x[nat mu := x ! nat mu + k]"

definition U :: "lattice \<Rightarrow> int \<Rightarrow> int list \<Rightarrow> Matrix3cd" where
  "U L mu x = links L (link_addr (map (wrap (n L)) x) mu)"

definition plaquette :: "lattice \<Rightarrow> int list \<Rightarrow> int \<Rightarrow> int \<Rightarrow> real" where
  "plaquette L x mu nu =
     Re (trace (mmul (mmul (mmul (U L mu x) (U L nu (move x mu 1)))
                  (adjoint (U L mu (move x nu 1)))) (adjoint (U L nu x)))) / 3"

definition local_action :: "lattice \<Rightarrow> int list \<Rightarrow> int \<Rightarrow> real" where
  "local_action L x d =
     - beta L * (\<Sum>nu \<in> {0, 1, 2, 3} - {d}.
                   plaquette L x d nu + plaquette L (move x nu (- 1)) d nu)"

definition pairs :: "(int \<times> int) list" where
  "pairs = [(0, 1), (0, 2), (0, 3), (1, 2), (1, 3), (2, 3)]"

definition average_plaquette :: "lattice \<Rightarrow> real" where
  "average_plaquette L =
     (\<Sum>x\<leftarrow>sites (n L). \<Sum>(mu, nu)\<leftarrow>pairs. plaquette L x mu nu)
       / (real_of_int (n L) ^ 4 * 6)"

text \<open>
  The Metropolis trial of \<open>update_link\<close>: the lattice with the addressed link
  right-multiplied by the pool entry that the first draw selects, and the change of the
  local action that it causes.
\<close>

definition trial :: "lattice \<Rightarrow> int stream \<Rightarrow> int list \<Rightarrow> lattice" where
  "trial L rs link =
     link_set L (take 4 link) (link ! 4)
       (mmul (links L (link_addr (take 4 link) (link ! 4)))
             (randSU3s L ! (nat (shd rs) mod length (randSU3s L))))"

definition dS :: "lattice \<Rightarrow> int stream \<Rightarrow> int list \<Rightarrow> real" where
  "dS L rs link =
     local_action (trial L rs link) (take 4 link) (link ! 4)
       - local_action L (take 4 link) (link ! 4)"

text \<open>
  The thread trace of \<open>update\<close> in closed form: the links in the order of the loops, the
  links of one parity class in direction \<open>m\<close>, and the threads that one block of join loops
  waits for.
\<close>

definition all_links :: "int list list \<Rightarrow> int list list" where
  "all_links ss = concat (map (\<lambda>s. map (\<lambda>m. s @ [int m]) [0, 1, 2, 3]) ss)"

definition class_links :: "int \<Rightarrow> bool \<Rightarrow> int list list \<Rightarrow> nat \<Rightarrow> int list list" where
  "class_links d ev ss m = map (\<lambda>s. s @ [int m]) (filter (\<lambda>s. even_site d s = ev) ss)"

definition joined :: "int \<Rightarrow> bool \<Rightarrow> int list list" where
  "joined d ev =
     concat (map (\<lambda>m. take (nat (d * d * d * d sdiv 2)) (class_links d ev (sites d) m))
               [0, 1, 2, 3])"

subsection \<open>Preconditions\<close>

text \<open>
  \<open>site_ok\<close>: four int coordinates to which \<open>P\<close> can add one. \<open>link_ok\<close>: a link whose
  coordinates \<open>Si\<close> can also decrease by one, with a direction. \<open>link_in\<close>: a link whose
  indices lie inside \<open>links\<close>, as \<open>update_link\<close> needs for its unwrapped access.
  \<open>draw_ok\<close>: a value that \<^verbatim>\<open>rand()\<close> can return.
\<close>

definition site_ok :: "int list \<Rightarrow> bool" where
  "site_ok x \<longleftrightarrow> length x = 4 \<and> list_all (\<lambda>c. int_ok c \<and> int_ok (c + 1)) x"

definition link_ok :: "int list \<Rightarrow> bool" where
  "link_ok link \<longleftrightarrow>
     length link = 5 \<and> list_all (\<lambda>c. int_ok (c - 1) \<and> int_ok (c + 1)) (take 4 link)
     \<and> 0 \<le> link ! 4 \<and> link ! 4 < 4"

definition link_in :: "lattice \<Rightarrow> int list \<Rightarrow> bool" where
  "link_in L link \<longleftrightarrow> length link = 5 \<and> index_ok L (take 4 link) (link ! 4)"


subsection \<open>Concrete lattices and draws\<close>

text \<open>
  A cold start of extent 2 (every link the identity) with inverse coupling \<open>b\<close>, and a pool
  holding the special-unitary matrix \<open>diag(1, -1, -1)\<close> and its adjoint.
\<close>

definition flipR :: Matrix3cd where
  "flipR = Mat 1 0 0  0 (- 1) 0  0 0 (- 1)"

definition cold_lattice :: "real \<Rightarrow> lattice" where
  "cold_lattice b = \<lparr>Ncor = 50, Ncf = 1000, n = 2, beta = b, eps = 6 / 25,
     links = (\<lambda>a. Identity), randSU3s = [flipR, adjoint flipR]\<rparr>"

definition tie_rs :: "int stream" where
  "tie_rs = 0 ## 1 ## sconst 0"

text \<open>
  The default parameters of the constructor (extent 8, \<open>beta = 5.5\<close>) on a cold start.
\<close>

definition default_cold :: lattice where
  "default_cold = (cold_lattice (11 / 2))\<lparr>n := 8\<rparr>"

text \<open>
  A C library with the \<^verbatim>\<open>RAND_MAX\<close> of glibc. Of \<^verbatim>\<open>exp\<close> on doubles two facts of IEEE
  arithmetic are modelled: below \<open>-746\<close> the result underflows to \<open>0.0\<close> (the least
  positive double is \<open>2\<^sup>-\<^sup>1\<^sup>0\<^sup>7\<^sup>4\<close>, about \<open>exp (-744.4)\<close>), and within \<open>2\<^sup>-\<^sup>5\<^sup>5\<close> of zero it rounds
  to \<open>1.0\<close>; elsewhere, and for the quotient, the exact value stands for the rounded one.
  The quotients used below, \<open>0 / RAND_MAX\<close> and \<open>RAND_MAX / RAND_MAX\<close>, are exact in doubles.
\<close>

definition exp_double :: "real \<Rightarrow> real" where
  "exp_double x = (if x < - 746 then 0 else if \<bar>x\<bar> \<le> 1 / 2 ^ 55 then 1 else exp x)"

definition libc :: cstd where
  "libc = \<lparr>RAND_MAX = 2147483647, exp_d = exp_double, div_d = (/)\<rparr>"




text \<open>
  A stand-in for \<^verbatim>\<open>householderQ\<close> that is unitary everywhere: a unitary \<open>B\<close> is its own
  unitary factor (with the identity as triangular factor).
\<close>

definition unitary_factor :: "Matrix3cd \<Rightarrow> Matrix3cd" where
  "unitary_factor B = (if unitary B then B else Identity)"

section \<open>Properties\<close>

subsection \<open>Properties of \<^verbatim>\<open>lattice::mod\<close>\<close>

lemma smod_nonneg_eq_mod: "0 \<le> a \<Longrightarrow> 0 < b \<Longrightarrow> a smod b = a mod (b::int)"
  by (cases "a = 0") (simp_all add: signed_modulo_int_def)

lemma mod_loop_nonneg: "0 \<le> c \<Longrightarrow> mod_loop c d = Some (Inr c)"
  by (subst mod_loop.simps) simp

lemma mod_loop_neg:
  assumes "0 < d" and "int_ok d"
  shows "c < 0 \<Longrightarrow> int_ok c \<Longrightarrow> mod_loop c d = Some (Inr (c mod d))"
proof (induction "nat (- c)" arbitrary: c rule: less_induct)
  case less
  have ok: "int_ok (c + d)"
    using less.prems assms by (simp add: int_ok_def)
  have step: "mod_loop c d = mod_loop (c + d) d"
    using less.prems ok by (subst mod_loop.simps) simp
  show ?case
  proof (cases "c + d < 0")
    case True
    have "mod_loop (c + d) d = Some (Inr ((c + d) mod d))"
      using True ok assms less.prems by (intro less.hyps) simp_all
    then show ?thesis using step by simp
  next
    case False
    then have "0 \<le> c + d" and "c + d < d" using less.prems by simp_all
    then have "(c + d) mod d = c + d" by (rule mod_pos_pos_trivial)
    moreover have "(c + d) mod d = c mod d" by simp
    ultimately have "c mod d = c + d" by (simp only:)
    then show ?thesis using step mod_loop_nonneg [of "c + d" d] False by simp
  qed
qed

lemma lattice_mod_eq:
  assumes "int_ok c" and "int_ok d" and "0 < d"
  shows "lattice_mod c d = Inr (c mod d)"
proof (cases "c < 0")
  case True
  have "0 \<le> c mod d" using assms(3) by simp
  then show ?thesis
    using mod_loop_neg [OF assms(3) assms(2) True assms(1)] assms(3)
    by (simp add: lattice_mod_def smod_nonneg_eq_mod)
next
  case False
  then show ?thesis
    using mod_loop_nonneg [of c d] assms(3)
    by (simp add: lattice_mod_def smod_nonneg_eq_mod)
qed

lemma int_ok_mod: "int_ok d \<Longrightarrow> 0 < d \<Longrightarrow> int_ok (c mod d)"
proof -
  assume a: "int_ok d" "0 < d"
  have "0 \<le> c mod d" and "c mod d < d" using a by simp_all
  then show ?thesis using a unfolding int_ok_def by linarith
qed

text \<open>
  Claim C7. For an extent \<open>d > 0\<close> and a coordinate \<open>c\<close> (both C++ ints), \<^verbatim>\<open>lattice::mod\<close>
  returns a value \<open>r\<close> with \<open>0 \<le> r < d\<close>; wrapping \<open>r\<close> again returns \<open>r\<close>; and every
  coordinate \<open>c + k * d\<close> that is itself an int wraps to the same \<open>r\<close>.
\<close>

theorem lattice_mod_wrap:
  assumes "int_ok c" and "int_ok d" and "0 < d"
  shows "\<exists>r. lattice_mod c d = Inr r \<and> 0 \<le> r \<and> r < d
            \<and> lattice_mod r d = Inr r
            \<and> (\<forall>k. int_ok (c + k * d) \<longrightarrow> lattice_mod (c + k * d) d = Inr r)"
proof -
  let ?r = "c mod d"
  have r: "lattice_mod c d = Inr ?r" by (rule lattice_mod_eq [OF assms])
  have rng: "0 \<le> ?r" "?r < d" using assms(3) by simp_all
  have idem: "lattice_mod ?r d = Inr ?r"
    using lattice_mod_eq [OF int_ok_mod [OF assms(2,3)] assms(2,3), of c] by simp
  have per: "lattice_mod (c + k * d) d = Inr ?r" if "int_ok (c + k * d)" for k
    using lattice_mod_eq [OF that assms(2,3)] by simp
  show ?thesis using r rng idem per by blast
qed

theorem lattice_mod_wrap_witness:
  "int_ok (- 5) \<and> int_ok 4 \<and> (0::int) < 4
   \<and> (\<exists>r. lattice_mod (- 5) 4 = Inr r \<and> 0 \<le> r \<and> r < 4
          \<and> lattice_mod r 4 = Inr r
          \<and> (\<forall>k. int_ok (- 5 + k * 4) \<longrightarrow> lattice_mod (- 5 + k * 4) 4 = Inr r))"
  using lattice_mod_wrap [of "- 5" 4] by (simp add: int_ok_def)


subsection \<open>Matrix algebra\<close>

lemma bind_f_Inr [simp]: "bind_f (Inr v) f = f v"
  by (simp add: bind_f_def)

lemma bind_f_Inl [simp]: "bind_f (Inl e) f = Inl e"
  by (simp add: bind_f_def)

lemma mmul_Identity_left: "mmul Identity A = A"
  by (cases A) (simp add: Identity_def)

lemma mmul_assoc: "mmul (mmul A B) C = mmul A (mmul B C)"
  by (cases A; cases B; cases C) (simp add: algebra_simps)

lemma adjoint_mmul: "adjoint (mmul A B) = mmul (adjoint B) (adjoint A)"
  by (cases A; cases B) (simp add: algebra_simps)

lemma adjoint_adjoint: "adjoint (adjoint A) = A"
  by (cases A) simp

lemma trace_adjoint: "trace (adjoint A) = cnj (trace A)"
  by (cases A) simp

lemma unitary_adjoint: "unitary M \<Longrightarrow> unitary (adjoint M)"
  by (simp add: unitary_def adjoint_adjoint)

lemma unitary_mmul:
  assumes "unitary A" and "unitary B"
  shows "unitary (mmul A B)"
proof -
  have "mmul (mmul A B) (adjoint (mmul A B)) = mmul A (mmul (mmul B (adjoint B)) (adjoint A))"
    by (simp add: adjoint_mmul mmul_assoc)
  also have "\<dots> = Identity"
    using assms by (simp add: unitary_def mmul_Identity_left)
  finally have left: "mmul (mmul A B) (adjoint (mmul A B)) = Identity" .
  have "mmul (adjoint (mmul A B)) (mmul A B) = mmul (adjoint B) (mmul (mmul (adjoint A) A) B)"
    by (simp add: adjoint_mmul mmul_assoc)
  also have "\<dots> = Identity"
    using assms by (simp add: unitary_def mmul_Identity_left)
  finally show ?thesis using left by (simp add: unitary_def)
qed

lemma sq_le_one: "x * x + y \<le> 1 \<Longrightarrow> 0 \<le> y \<Longrightarrow> \<bar>x::real\<bar> \<le> 1"
proof -
  assume a: "x * x + y \<le> 1" "0 \<le> y"
  then have "x\<^sup>2 \<le> 1\<^sup>2" by (simp add: power2_eq_square)
  then show ?thesis using abs_le_square_iff [of x 1] by simp
qed

text \<open>Every row of a unitary matrix has norm one, so no diagonal entry exceeds one.\<close>

lemma unitary_trace_bound:
  assumes "unitary M"
  shows "\<bar>Re (trace M)\<bar> \<le> 3"
proof (cases M)
  case (Mat a11 a12 a13 a21 a22 a23 a31 a32 a33)
  have M: "mmul M (adjoint M) = Identity" using assms by (simp add: unitary_def)
  have e1: "Re a11 * Re a11 + (Im a11 * Im a11 + Re a12 * Re a12 + Im a12 * Im a12
        + Re a13 * Re a13 + Im a13 * Im a13) \<le> 1"
    using M Mat by (simp add: Identity_def complex_eq_iff algebra_simps)
  have e2: "Re a22 * Re a22 + (Im a22 * Im a22 + Re a21 * Re a21 + Im a21 * Im a21
        + Re a23 * Re a23 + Im a23 * Im a23) \<le> 1"
    using M Mat by (simp add: Identity_def complex_eq_iff algebra_simps)
  have e3: "Re a33 * Re a33 + (Im a33 * Im a33 + Re a31 * Re a31 + Im a31 * Im a31
        + Re a32 * Re a32 + Im a32 * Im a32) \<le> 1"
    using M Mat by (simp add: Identity_def complex_eq_iff algebra_simps)
  have "\<bar>Re a11\<bar> \<le> 1" by (rule sq_le_one [OF e1]) simp
  moreover have "\<bar>Re a22\<bar> \<le> 1" by (rule sq_le_one [OF e2]) simp
  moreover have "\<bar>Re a33\<bar> \<le> 1" by (rule sq_le_one [OF e3]) simp
  ultimately show ?thesis using Mat by simp
qed

lemma plaquette_bound:
  assumes "unitary A" "unitary B" "unitary C" "unitary D"
  shows "\<bar>Re (trace (mmul (mmul (mmul A B) (adjoint C)) (adjoint D))) / 3\<bar> \<le> 1"
proof -
  have "unitary (mmul (mmul (mmul A B) (adjoint C)) (adjoint D))"
    using assms by (intro unitary_mmul unitary_adjoint)
  then show ?thesis using unitary_trace_bound by fastforce
qed

lemma special_unitary_Identity: "special_unitary Identity"
  by (simp add: special_unitary_def unitary_def Identity_def)

lemma special_unitary_flipR: "special_unitary flipR"
  by (simp add: special_unitary_def unitary_def Identity_def flipR_def)

subsection \<open>The plaquette\<close>

lemma add_int_ok: "int_ok (a + b) \<Longrightarrow> add_int a b = Inr (a + b)"
  by (simp add: add_int_def)

lemma wrap_loop_eq:
  "0 < d \<Longrightarrow> int_ok d \<Longrightarrow> length ms = length cs \<Longrightarrow> length vs = length cs \<Longrightarrow>
   list_all int_ok cs \<Longrightarrow> list_all int_ok (map2 (+) cs ms) \<Longrightarrow>
   list_all int_ok (map2 (+) cs vs) \<Longrightarrow>
   wrap_loop d cs ms vs =
     Inr (map (wrap d) cs, map (wrap d) (map2 (+) cs ms), map (wrap d) (map2 (+) cs vs))"
proof (induction d cs ms vs rule: wrap_loop.induct)
  case (1 d c cs m ms v vs)
  then show ?case
    by (simp add: lattice_mod_eq add_int_ok wrap_def)
qed simp_all

lemma dir_cases: "0 \<le> mu \<Longrightarrow> mu < 4 \<Longrightarrow> mu = 0 \<or> mu = 1 \<or> mu = 2 \<or> mu = (3::int)"
  by arith

lemma unit_vec_bad: "\<not> (0 \<le> d \<and> d < 4) \<Longrightarrow> unit_vec d = Inl OutOfBounds"
  by (auto simp: unit_vec_def)

lemma unit_vec_good: "0 \<le> d \<and> d < 4 \<Longrightarrow> unit_vec d = Inr ([0, 0, 0, 0][nat d := 1])"
  by (auto simp: unit_vec_def)

lemma unit_vec_move:
  assumes "0 \<le> mu" "mu < 4"
  shows "map2 (+) [a, b, c, e] ([0, 0, 0, 0][nat mu := 1]) = move [a, b, c, e] mu 1"
  using dir_cases [OF assms] by (auto simp: move_def)

lemma length4E:
  assumes "length x = 4"
  obtains a b c e where "x = [a, b, c, e]"
  using assms by (auto simp: length_Suc_conv eval_nat_numeral)

lemma length_move [simp]: "length (move x mu k) = length x"
  by (simp add: move_def)

lemma link_at_wrap:
  assumes "0 < n L" and "length x = 4" and "0 \<le> mu" and "mu < 4"
  shows "link_at L (map (wrap (n L)) x) mu = Inr (U L mu x)"
  using assms by (simp add: link_at_def index_ok_def U_def list_all_iff wrap_def)

lemma wrap_loop_moves:
  assumes "0 < d" and "int_ok d" and "site_ok x"
    and "0 \<le> mu" and "mu < 4" and "0 \<le> nu" and "nu < 4"
  shows "wrap_loop d x ([0, 0, 0, 0][nat mu := 1]) ([0, 0, 0, 0][nat nu := 1]) =
      Inr (map (wrap d) x, map (wrap d) (move x mu 1), map (wrap d) (move x nu 1))"
proof -
  have len: "length x = 4" using assms(3) by (simp add: site_ok_def)
  then obtain a b c e where x: "x = [a, b, c, e]" by (rule length4E)
  have ok: "list_all int_ok x" "list_all int_ok (move x mu 1)" "list_all int_ok (move x nu 1)"
    using assms(3) dir_cases [OF assms(4,5)] dir_cases [OF assms(6,7)]
    by (auto simp: site_ok_def x move_def)
  let ?ms = "[0, 0, 0, 0][nat mu := 1] :: int list"
  let ?vs = "[0, 0, 0, 0][nat nu := 1] :: int list"
  have lm: "length ?ms = length x" and lv: "length ?vs = length x"
    by (simp_all add: x del: list_update.simps)
  have m2: "map2 (+) x ?ms = move x mu 1" unfolding x by (rule unit_vec_move [OF assms(4,5)])
  have v2: "map2 (+) x ?vs = move x nu 1" unfolding x by (rule unit_vec_move [OF assms(6,7)])
  have okm: "list_all int_ok (map2 (+) x ?ms)" using ok(2) by (simp only: m2)
  have okv: "list_all int_ok (map2 (+) x ?vs)" using ok(3) by (simp only: v2)
  show ?thesis
    using wrap_loop_eq [OF assms(1,2) lm lv ok(1) okm okv] by (simp only: m2 v2)
qed

lemma P_plaquette_eq:
  assumes "0 < n L" and "int_ok (n L)" and "site_ok x"
    and "0 \<le> mu" and "mu < 4" and "0 \<le> nu" and "nu < 4"
  shows "P L x mu nu = Inr (plaquette L x mu nu)"
proof -
  have len: "length x = 4" using assms(3) by (simp add: site_ok_def)
  show ?thesis
    using len wrap_loop_moves [OF assms] assms
    by (simp add: P_def unit_vec_good link_at_wrap mmul_Identity_left plaquette_def
          del: list_update.simps)
qed

lemma cold_lattice_sel:
  "n (cold_lattice b) = 2" "beta (cold_lattice b) = b"
  "links (cold_lattice b) = (\<lambda>a. Identity)"
  "randSU3s (cold_lattice b) = [flipR, adjoint flipR]"
  by (simp_all add: cold_lattice_def)

lemma plaquette_cold: "plaquette (cold_lattice b) x mu nu = 1"
  by (simp add: plaquette_def U_def cold_lattice_sel Identity_def)

text \<open>
  Claim C5. For a lattice of extent \<open>n > 0\<close>, a site \<open>x\<close> of four int coordinates (any sign,
  any size for which \<open>x + e\<close> is still an int) and directions \<open>mu\<close>, \<open>nu\<close> of \<open>0..3\<close>, \<open>P\<close>
  returns \<open>Re (Tr (U\<^sub>\<mu>(w x) U\<^sub>\<nu>(w (x + e\<^sub>\<mu>)) U\<^sub>\<mu>(w (x + e\<^sub>\<nu>))\<^sup>\<dagger> U\<^sub>\<nu>(w x)\<^sup>\<dagger>)) / 3\<close> with \<open>w\<close> the
  reduction modulo \<open>n\<close>; when the four matrices are special-unitary the value lies in
  \<open>[-1, 1]\<close>.
\<close>

theorem P_plaquette:
  assumes "0 < n L" and "int_ok (n L)" and "site_ok x"
    and "0 \<le> mu" and "mu < 4" and "0 \<le> nu" and "nu < 4"
  shows "P L x mu nu = Inr (plaquette L x mu nu)
     \<and> (special_unitary (U L mu x) \<and> special_unitary (U L nu (move x mu 1))
        \<and> special_unitary (U L mu (move x nu 1)) \<and> special_unitary (U L nu x)
        \<longrightarrow> - 1 \<le> plaquette L x mu nu \<and> plaquette L x mu nu \<le> 1)"
proof -
  have "\<bar>plaquette L x mu nu\<bar> \<le> 1"
    if "special_unitary (U L mu x)" "special_unitary (U L nu (move x mu 1))"
       "special_unitary (U L mu (move x nu 1))" "special_unitary (U L nu x)"
    unfolding plaquette_def using that
    by (intro plaquette_bound) (simp_all add: special_unitary_def)
  then show ?thesis using P_plaquette_eq [OF assms] by (auto simp: abs_le_iff)
qed

theorem P_plaquette_witness:
  "0 < n (cold_lattice 1) \<and> int_ok (n (cold_lattice 1)) \<and> site_ok [- 1, 2, 0, 1]
   \<and> special_unitary (U (cold_lattice 1) 0 [- 1, 2, 0, 1])
   \<and> special_unitary (U (cold_lattice 1) 3 (move [- 1, 2, 0, 1] 0 1))
   \<and> special_unitary (U (cold_lattice 1) 0 (move [- 1, 2, 0, 1] 3 1))
   \<and> special_unitary (U (cold_lattice 1) 3 [- 1, 2, 0, 1])
   \<and> P (cold_lattice 1) [- 1, 2, 0, 1] 0 3 = Inr 1
   \<and> - 1 \<le> plaquette (cold_lattice 1) [- 1, 2, 0, 1] 0 3
   \<and> plaquette (cold_lattice 1) [- 1, 2, 0, 1] 0 3 \<le> 1"
proof -
  have h: "0 < n (cold_lattice 1)" "int_ok (n (cold_lattice 1))" "site_ok [- 1, 2, 0, 1]"
    by (simp_all add: cold_lattice_def int_ok_def site_ok_def)
  have su: "special_unitary (U (cold_lattice 1) mu x)" for mu x
    by (simp add: U_def cold_lattice_def special_unitary_Identity)
  show ?thesis
    using P_plaquette [OF h, of 0 3] h su by (simp add: plaquette_cold)
qed

subsection \<open>The local action\<close>

lemma other_dirs:
  "{0, 1, 2, 3} - {0::int} = {1, 2, 3}" "{0, 1, 2, 3} - {1::int} = {0, 2, 3}"
  "{0, 1, 2, 3} - {2::int} = {0, 1, 3}" "{0, 1, 2, 3} - {3::int} = {0, 1, 2}"
  by auto

lemma site_ok_take:
  assumes "link_ok link"
  shows "site_ok (take 4 link)"
  using assms by (auto simp: link_ok_def site_ok_def list_all_iff int_ok_def)

lemma site_ok_back:
  assumes "link_ok link" and "0 \<le> p" and "p < 4"
  shows "site_ok ((take 4 link)[nat p := take 4 link ! nat p - 1])"
    and "int_ok (take 4 link ! nat p + - 1)"
proof -
  have len: "length (take 4 link) = 4" using assms(1) by (simp add: link_ok_def)
  then obtain a b c e where x: "take 4 link = [a, b, c, e]" by (rule length4E)
  have a: "list_all (\<lambda>c. int_ok (c - 1) \<and> int_ok (c + 1)) [a, b, c, e]"
    using assms(1) by (simp add: link_ok_def x)
  show "site_ok ((take 4 link)[nat p := take 4 link ! nat p - 1])"
    using a dir_cases [OF assms(2,3)] by (auto simp: x site_ok_def int_ok_def)
  show "int_ok (take 4 link ! nat p + - 1)"
    using a dir_cases [OF assms(2,3)] by (auto simp: x)
qed

lemma Si_loop_eq:
  assumes "0 < n L" and "int_ok (n L)" and "link_ok link"
  shows "list_all (\<lambda>p. 0 \<le> p \<and> p < 4) ps \<Longrightarrow>
    Si_loop L link ps acc =
      Inr (acc + (\<Sum>p\<leftarrow>ps. plaquette L (take 4 link) (link ! 4) p
                         + plaquette L (move (take 4 link) p (- 1)) (link ! 4) p))"
proof (induction ps arbitrary: acc)
  case Nil
  then show ?case by simp
next
  case (Cons p ps)
  have d: "0 \<le> link ! 4" "link ! 4 < 4" using assms(3) by (simp_all add: link_ok_def)
  have p: "0 \<le> p" "p < 4" using Cons.prems by simp_all
  have p1: "P L (take 4 link) (link ! 4) p = Inr (plaquette L (take 4 link) (link ! 4) p)"
    by (rule P_plaquette_eq [OF assms(1,2) site_ok_take [OF assms(3)] d p])
  have p2: "P L ((take 4 link)[nat p := take 4 link ! nat p - 1]) (link ! 4) p
      = Inr (plaquette L (move (take 4 link) p (- 1)) (link ! 4) p)"
    using P_plaquette_eq [OF assms(1,2) site_ok_back(1) [OF assms(3) p] d p]
    by (simp add: move_def)
  have c: "add_int (take 4 link ! nat p) (- 1) = Inr (take 4 link ! nat p - 1)"
    using site_ok_back(2) [OF assms(3) p] by (simp add: add_int_def)
  have "Si_loop L link (p # ps) acc =
      Si_loop L link ps (acc + plaquette L (take 4 link) (link ! 4) p
         + plaquette L (move (take 4 link) p (- 1)) (link ! 4) p)"
    by (simp add: p1 p2 c Let_def)
  then show ?case using Cons.IH Cons.prems by (simp add: algebra_simps)
qed

lemma Si_eq:
  assumes "0 < n L" and "int_ok (n L)" and "link_ok link"
  shows "Si L link = Inr (local_action L (take 4 link) (link ! 4))"
proof -
  have d: "0 \<le> link ! 4" "link ! 4 < 4" and len: "length link = 5"
    using assms(3) by (simp_all add: link_ok_def)
  have "Si L link = Inr (- beta L * (\<Sum>p\<leftarrow>filter (\<lambda>i. link ! 4 \<noteq> i) [0, 1, 2, 3].
           plaquette L (take 4 link) (link ! 4) p
           + plaquette L (move (take 4 link) p (- 1)) (link ! 4) p))"
    using dir_cases [OF d] len
    by (auto simp: Si_def Let_def Si_loop_eq [OF assms])
  also have "\<dots> = Inr (local_action L (take 4 link) (link ! 4))"
    using dir_cases [OF d] by (auto simp: local_action_def other_dirs)
  finally show ?thesis .
qed


text \<open>
  Claim C4. For a link at site \<open>x\<close> (int coordinates that can be stepped by one either way)
  in direction \<open>d\<close> of \<open>0..3\<close>, \<open>Si\<close> returns \<open>- beta\<close> times the sum, over the three
  directions \<open>nu \<noteq> d\<close>, of the plaquette at \<open>x\<close> and the plaquette at \<open>x - e\<^sub>\<nu>\<close>, both in the
  plane \<open>(d, nu)\<close>, both looked up with periodic wrap, and both the value that \<open>P\<close> returns
  there.
\<close>

theorem Si_six_plaquettes:
  assumes "0 < n L" and "int_ok (n L)" and "link_ok (x @ [d])" and "length x = 4"
  shows "Si L (x @ [d]) =
     Inr (- beta L * (\<Sum>nu \<in> {0, 1, 2, 3} - {d}.
                        plaquette L x d nu + plaquette L (move x nu (- 1)) d nu))
     \<and> card ({0, 1, 2, 3} - {d}) = 3
     \<and> (\<forall>nu \<in> {0, 1, 2, 3} - {d}.
           P L x d nu = Inr (plaquette L x d nu)
         \<and> P L (move x nu (- 1)) d nu = Inr (plaquette L (move x nu (- 1)) d nu))"
proof -
  have d: "0 \<le> d" "d < 4" using assms(3,4) by (simp_all add: link_ok_def nth_append)
  then have card: "card ({0, 1, 2, 3} - {d}) = 3"
    using dir_cases [of d] by (auto simp: other_dirs)
  have x: "take 4 (x @ [d]) = x" using assms(4) by simp
  have sx: "site_ok x" using site_ok_take [OF assms(3)] by (simp only: x)
  have here: "P L x d nu = Inr (plaquette L x d nu)" if "0 \<le> nu" "nu < 4" for nu
    by (rule P_plaquette_eq [OF assms(1,2) sx d that])
  have there: "P L (move x nu (- 1)) d nu = Inr (plaquette L (move x nu (- 1)) d nu)"
    if "0 \<le> nu" "nu < 4" for nu
  proof -
    have "site_ok (move x nu (- 1))"
      using site_ok_back(1) [OF assms(3) that] by (simp only: x move_def) simp
    then show ?thesis by (rule P_plaquette_eq [OF assms(1,2) _ d that])
  qed
  have "\<forall>nu \<in> {0, 1, 2, 3} - {d}.
           P L x d nu = Inr (plaquette L x d nu)
         \<and> P L (move x nu (- 1)) d nu = Inr (plaquette L (move x nu (- 1)) d nu)"
    using here there by auto
  then show ?thesis
    using Si_eq [OF assms(1,2,3)] assms(4) card by (simp add: local_action_def nth_append)
qed

theorem Si_six_plaquettes_witness:
  "0 < n (cold_lattice (11 / 2)) \<and> int_ok (n (cold_lattice (11 / 2)))
   \<and> link_ok ([0, 1, 0, 1] @ [2]) \<and> length [0, 1, 0, 1 :: int] = 4
   \<and> Si (cold_lattice (11 / 2)) ([0, 1, 0, 1] @ [2]) = Inr (- 33)
   \<and> card ({0, 1, 2, 3} - {2 :: int}) = 3
   \<and> P (cold_lattice (11 / 2)) [0, 1, 0, 1] 2 0 = Inr 1
   \<and> P (cold_lattice (11 / 2)) (move [0, 1, 0, 1] 0 (- 1)) 2 0 = Inr 1"
proof -
  have h: "0 < n (cold_lattice (11 / 2))" "int_ok (n (cold_lattice (11 / 2)))"
      "link_ok ([0, 1, 0, 1] @ [2])" "length [0, 1, 0, 1 :: int] = 4"
    by (simp_all add: cold_lattice_def int_ok_def link_ok_def)
  show ?thesis
    using Si_six_plaquettes [OF h] h by (simp add: plaquette_cold other_dirs cold_lattice_sel)
qed

subsection \<open>The Metropolis step\<close>

lemma link_in_ok:
  assumes "int_ok (n L)" and "link_in L link"
  shows "link_ok link"
  using assms by (auto simp: link_in_def link_ok_def index_ok_def list_all_iff int_ok_def)

lemma link_set_sel [simp]:
  "n (link_set L s m M) = n L" "beta (link_set L s m M) = beta L"
  "eps (link_set L s m M) = eps L" "Ncor (link_set L s m M) = Ncor L"
  "Ncf (link_set L s m M) = Ncf L" "randSU3s (link_set L s m M) = randSU3s L"
  "links (link_set L s m M) = (links L)(link_addr s m := M)"
  by (simp_all add: link_set_def)

lemma link_set_restore:
  "link_set (link_set L s m M) s m (links L (link_addr s m)) = L"
  by (simp add: link_set_def)

lemma update_link_eq:
  assumes "0 < n L" and "int_ok (n L)" and "link_in L link" and "randSU3s L \<noteq> []"
  shows "update_link E L rs link =
     (if dS L rs link > 0
      then (if exp_d E (- dS L rs link)
                 < div_d E (real_of_int (shd (stl rs))) (real_of_int (RAND_MAX E))
            then Inr (L, stl (stl rs))
            else Inr (trial L rs link, stl (stl rs)))
      else Inr (trial L rs link, stl rs))"
proof -
  have lk: "link_ok link" by (rule link_in_ok [OF assms(2,3)])
  have old: "Si L link = Inr (local_action L (take 4 link) (link ! 4))"
    by (rule Si_eq [OF assms(1,2) lk])
  have new: "Si (trial L rs link) link
      = Inr (local_action (trial L rs link) (take 4 link) (link ! 4))"
    using assms(1,2) by (intro Si_eq lk) (simp_all add: trial_def)
  have cur: "link_at L (take 4 link) (link ! 4)
      = Inr (links L (link_addr (take 4 link) (link ! 4)))"
    using assms(3) by (simp add: link_in_def link_at_def)
  have tr: "link_set L (take 4 link) (link ! 4)
        (mmul (links L (link_addr (take 4 link) (link ! 4)))
              (randSU3s L ! (nat (shd rs) mod length (randSU3s L)))) = trial L rs link"
    by (simp add: trial_def)
  have restore: "link_set (trial L rs link) (take 4 link) (link ! 4)
        (links L (link_addr (take 4 link) (link ! 4))) = L"
    unfolding trial_def by (rule link_set_restore)
  show ?thesis
    unfolding update_link_def old cur
    using assms(4)
    by (simp add: rand_def Let_def tr new restore dS_def)
qed




lemma cold_lattice_ok:
  "0 < n (cold_lattice b)" "int_ok (n (cold_lattice b))" "randSU3s (cold_lattice b) \<noteq> []"
  "link_in (cold_lattice b) [0, 0, 0, 0, 0]"
  by (simp_all add: cold_lattice_sel int_ok_def link_in_def index_ok_def)


lemma libc_sel:
  "RAND_MAX libc = 2147483647" "exp_d libc = exp_double" "div_d libc = (/)"
  by (simp_all add: libc_def)




text \<open>
  Claim C10. For a link inside the lattice and a non-empty pool, \<open>update_link\<close> returns,
  and the lattice it returns differs from the prior one at most in the matrix of the
  addressed link: every other link, the pool and the five parameters are the same.
\<close>

theorem update_link_frame:
  assumes "0 < n L" and "int_ok (n L)" and "link_in L link" and "randSU3s L \<noteq> []"
  shows "\<exists>L' rs'. update_link E L rs link = Inr (L', rs')
     \<and> (\<forall>a. a \<noteq> link_addr (take 4 link) (link ! 4) \<longrightarrow> links L' a = links L a)
     \<and> randSU3s L' = randSU3s L \<and> n L' = n L \<and> beta L' = beta L \<and> eps L' = eps L
     \<and> Ncor L' = Ncor L \<and> Ncf L' = Ncf L"
proof -
  have "update_link E L rs link = Inr (L, stl (stl rs))
      \<or> update_link E L rs link = Inr (trial L rs link, stl (stl rs))
      \<or> update_link E L rs link = Inr (trial L rs link, stl rs)"
    unfolding update_link_eq [OF assms] by simp
  then show ?thesis by (auto simp: trial_def)
qed

theorem update_link_frame_witness:
  "0 < n (cold_lattice (11 / 2)) \<and> int_ok (n (cold_lattice (11 / 2)))
   \<and> link_in (cold_lattice (11 / 2)) [0, 0, 0, 0, 0] \<and> randSU3s (cold_lattice (11 / 2)) \<noteq> []
   \<and> (\<exists>L' rs'. update_link libc (cold_lattice (11 / 2)) tie_rs [0, 0, 0, 0, 0] = Inr (L', rs')
     \<and> (\<forall>a. a \<noteq> (0, 0, 0, 0, 0) \<longrightarrow> links L' a = Identity)
     \<and> randSU3s L' = [flipR, adjoint flipR] \<and> n L' = 2 \<and> beta L' = 11 / 2)"
proof -
  obtain L' rs' where r: "update_link libc (cold_lattice (11 / 2)) tie_rs [0, 0, 0, 0, 0] = Inr (L', rs')"
      "\<forall>a. a \<noteq> link_addr (take 4 [0, 0, 0, 0, 0]) ([0, 0, 0, 0, 0] ! 4)
             \<longrightarrow> links L' a = links (cold_lattice (11 / 2)) a"
      "randSU3s L' = randSU3s (cold_lattice (11 / 2))" "n L' = n (cold_lattice (11 / 2))"
      "beta L' = beta (cold_lattice (11 / 2))"
    using update_link_frame [where L = "cold_lattice (11 / 2)" and link = "[0, 0, 0, 0, 0]"
        and E = libc and rs = tie_rs, OF cold_lattice_ok(1,2,4,3)] by blast
  have "\<forall>a. a \<noteq> (0, 0, 0, 0, 0) \<longrightarrow> links L' a = Identity"
    using r(2) by (simp add: link_addr_def cold_lattice_sel)
  then show ?thesis
    using r(1,3,4,5) cold_lattice_ok [of "11 / 2"] by (auto simp: cold_lattice_sel)
qed

subsection \<open>Directions outside \<open>0..3\<close>\<close>

lemma P_bad_mu:
  "length x = 4 \<Longrightarrow> \<not> (0 \<le> d \<and> d < 4) \<Longrightarrow> P L x d nu = Inl OutOfBounds"
  by (simp add: P_def unit_vec_bad)

lemma P_bad_nu:
  "length x = 4 \<Longrightarrow> \<not> (0 \<le> d \<and> d < 4) \<Longrightarrow> P L x mu d = Inl OutOfBounds"
  by (cases "0 \<le> mu \<and> mu < 4")
     (simp_all add: P_def unit_vec_bad unit_vec_good del: list_update.simps)

lemma Si_bad_dir:
  "length x = 4 \<Longrightarrow> \<not> (0 \<le> d \<and> d < 4) \<Longrightarrow> Si L (x @ [d]) = Inl OutOfBounds"
  by (auto simp: Si_def nth_append Let_def)

lemma update_link_bad_dir:
  "length x = 4 \<Longrightarrow> \<not> (0 \<le> d \<and> d < 4)
   \<Longrightarrow> update_link E L rs (x @ [d]) = Inl OutOfBounds"
  by (simp add: update_link_def Si_bad_dir)

lemma link_in_append:
  assumes "length x = 4" and "index_ok L x d"
  shows "link_in L (x @ [d])"
  using assms by (simp add: link_in_def nth_append)

text \<open>
  Claim C6, as the code has it. No operation validates its direction argument, and there
  is no invalid-direction failure. For a direction outside \<open>0..3\<close>, \<open>P\<close> (in either
  direction argument), \<open>Si\<close> and \<open>update_link\<close> run into an unchecked access outside an
  array, which is undefined behaviour. For a link inside the lattice, whose direction
  is then in \<open>0..3\<close>, every access is in bounds and the three operations return.
\<close>

theorem direction_not_validated:
  assumes "length x = 4"
  shows "(\<not> (0 \<le> d \<and> d < 4) \<longrightarrow>
            P L x d nu = Inl OutOfBounds \<and> P L x mu d = Inl OutOfBounds
          \<and> Si L (x @ [d]) = Inl OutOfBounds
          \<and> update_link E L rs (x @ [d]) = Inl OutOfBounds)
       \<and> (0 < n L \<and> int_ok (n L) \<and> index_ok L x d \<and> 0 \<le> nu \<and> nu < 4 \<and> randSU3s L \<noteq> [] \<longrightarrow>
            (\<exists>v. P L x d nu = Inr v) \<and> (\<exists>v. Si L (x @ [d]) = Inr v)
          \<and> (\<exists>r. update_link E L rs (x @ [d]) = Inr r))"
proof -
  have bad: "P L x d nu = Inl OutOfBounds \<and> P L x mu d = Inl OutOfBounds
          \<and> Si L (x @ [d]) = Inl OutOfBounds
          \<and> update_link E L rs (x @ [d]) = Inl OutOfBounds"
    if "\<not> (0 \<le> d \<and> d < 4)"
    using assms that by (simp add: P_bad_mu P_bad_nu Si_bad_dir update_link_bad_dir)
  have good: "(\<exists>v. P L x d nu = Inr v) \<and> (\<exists>v. Si L (x @ [d]) = Inr v)
          \<and> (\<exists>r. update_link E L rs (x @ [d]) = Inr r)"
    if h: "0 < n L" "int_ok (n L)" "index_ok L x d" "0 \<le> nu" "nu < 4" "randSU3s L \<noteq> []"
  proof -
    have li: "link_in L (x @ [d])" by (rule link_in_append [OF assms h(3)])
    have lk: "link_ok (x @ [d])" by (rule link_in_ok [OF h(2) li])
    have d: "0 \<le> d" "d < 4" using h(3) by (simp_all add: index_ok_def)
    have "site_ok x" using site_ok_take [OF lk] assms by simp
    then have "P L x d nu = Inr (plaquette L x d nu)"
      by (intro P_plaquette_eq h d)
    moreover have "\<exists>r. update_link E L rs (x @ [d]) = Inr r"
      unfolding update_link_eq [OF h(1,2) li h(6)] by simp
    ultimately show ?thesis using Si_eq [OF h(1,2) lk] by simp
  qed
  show ?thesis using bad good by blast
qed

theorem direction_not_validated_witness:
  "length [0, 0, 0, 0 :: int] = 4 \<and> \<not> (0 \<le> (- 1 :: int) \<and> (- 1 :: int) < 4)
   \<and> P (cold_lattice 1) [0, 0, 0, 0] (- 1) 1 = Inl OutOfBounds
   \<and> P (cold_lattice 1) [0, 0, 0, 0] 1 (- 1) = Inl OutOfBounds
   \<and> Si (cold_lattice 1) ([0, 0, 0, 0] @ [- 1]) = Inl OutOfBounds
   \<and> update_link libc (cold_lattice 1) tie_rs ([0, 0, 0, 0] @ [- 1]) = Inl OutOfBounds
   \<and> 0 < n (cold_lattice 1) \<and> int_ok (n (cold_lattice 1)) \<and> index_ok (cold_lattice 1) [0, 0, 0, 0] 3
   \<and> (0::int) \<le> 1 \<and> (1::int) < 4 \<and> randSU3s (cold_lattice 1) \<noteq> []
   \<and> (\<exists>v. P (cold_lattice 1) [0, 0, 0, 0] 3 1 = Inr v)
   \<and> (\<exists>v. Si (cold_lattice 1) ([0, 0, 0, 0] @ [3]) = Inr v)
   \<and> (\<exists>r. update_link libc (cold_lattice 1) tie_rs ([0, 0, 0, 0] @ [3]) = Inr r)"
proof -
  have h: "0 < n (cold_lattice 1)" "int_ok (n (cold_lattice 1))"
      "index_ok (cold_lattice 1) [0, 0, 0, 0] 3" "randSU3s (cold_lattice 1) \<noteq> []"
    by (simp_all add: cold_lattice_sel int_ok_def index_ok_def)
  show ?thesis
    using direction_not_validated [of "[0, 0, 0, 0]" "- 1" "cold_lattice 1" 1 1 libc tie_rs]
      direction_not_validated [of "[0, 0, 0, 0]" 3 "cold_lattice 1" 1 1 libc tie_rs] h
    by simp
qed

text \<open>
  The statement of C6 as written fails at direction 4: \<open>P\<close> does not stop with a
  validation failure, it writes \<^verbatim>\<open>mu_vec[4]\<close>.
\<close>

theorem P_direction_counterexample:
  "P (cold_lattice 1) [0, 0, 0, 0] 4 0 = Inl OutOfBounds"
  by (simp add: P_def unit_vec_def)

subsection \<open>Parity of the flattened index\<close>

lemma smod2_even: "(a::int) smod 2 = 0 \<longleftrightarrow> even a"
  by (cases "a = 0") (auto simp: signed_modulo_int_def sgn_if even_iff_mod_2_eq_zero abs_if)

lemma even_site_iff:
  "even_site d [i, j, k, l] \<longleftrightarrow>
     (if even d then even l else (even l = (even k = (even j = even i))))"
  by (auto simp: even_site_def site_index_def smod2_even)

lemma step_par:
  assumes "0 \<le> c" and "c < d"
  shows "(even (wrap d (c + 1)) \<noteq> even c) \<longleftrightarrow> (c \<noteq> d - 1 \<or> even d)"
proof (cases "c = d - 1")
  case True
  then show ?thesis by (simp add: wrap_def)
next
  case False
  then have "wrap d (c + 1) = c + 1" using assms by (simp add: wrap_def)
  then show ?thesis using False by simp
qed

text \<open>
  When the step flips the parity. For an even extent the index parity is the parity of
  the innermost coordinate alone, so only steps in direction 3 change the class. For an
  odd extent every step does, except the one that wraps, where no two-colouring of the
  periodic lattice can.
\<close>

lemma neighbour_parity_iff:
  assumes "2 \<le> d" and "length s = 4" and "list_all (\<lambda>c. 0 \<le> c \<and> c < d) s"
    and "0 \<le> mu" and "mu < 4"
  shows "(even_site d (map (wrap d) (move s mu 1)) \<noteq> even_site d s)
     \<longleftrightarrow> (if even d then mu = 3 else s ! nat mu \<noteq> d - 1)"
proof -
  obtain i j k l where s: "s = [i, j, k, l]" using assms(2) by (rule length4E)
  have r: "0 \<le> i" "i < d" "0 \<le> j" "j < d" "0 \<le> k" "k < d" "0 \<le> l" "l < d"
    using assms(3) by (simp_all add: s)
  have w: "wrap d i = i" "wrap d j = j" "wrap d k = k" "wrap d l = l"
    using r by (simp_all add: wrap_def)
  note p = step_par [OF r(1,2)] step_par [OF r(3,4)] step_par [OF r(5,6)] step_par [OF r(7,8)]
  consider "mu = 0" | "mu = 1" | "mu = 2" | "mu = 3"
    using dir_cases [OF assms(4,5)] by blast
  then show ?thesis
  proof cases
    case 1
    then show ?thesis using p(1) by (simp add: s move_def even_site_iff w) blast
  next
    case 2
    then show ?thesis using p(2) by (simp add: s move_def even_site_iff w) blast
  next
    case 3
    then show ?thesis using p(3) by (simp add: s move_def even_site_iff w) blast
  next
    case 4
    then show ?thesis using p(4) by (simp add: s move_def even_site_iff w) blast
  qed
qed

lemma odd_extent_wrap_same_class:
  "wrap_loop 3 [0, 0, 0, 2] [0, 0, 0, 1] [0, 0, 0, 1] = Inr ([0, 0, 0, 2], [0, 0, 0, 0], [0, 0, 0, 0])
   \<and> site_index 3 [0, 0, 0, 2] = 2 \<and> site_index 3 [0, 0, 0, 0] = 0
   \<and> even_site 3 [0, 0, 0, 2] \<and> even_site 3 [0, 0, 0, 0]"
  by (simp add: lattice_mod_eq add_int_def int_ok_def even_site_iff site_index_def)

lemma default_cold_sel:
  "n default_cold = 8" "beta default_cold = 11 / 2" "links default_cold = (\<lambda>a. Identity)"
  by (simp_all add: default_cold_def cold_lattice_sel)

lemma default_cold_ok:
  "0 < n (link_set default_cold s m M)" "int_ok (n (link_set default_cold s m M))"
  "0 < n default_cold" "int_ok (n default_cold)" "link_ok [0, 0, 0, 0, 0]"
  by (simp_all add: default_cold_sel int_ok_def link_ok_def)

text \<open>
  Claim C2 at the default extent 8. From site \<open>(0,0,0,0)\<close>, \<open>P\<close> with \<open>mu = 0\<close> and \<open>nu = 1\<close>
  reaches the sites \<open>(1,0,0,0)\<close> and \<open>(0,1,0,0)\<close>. The three flattened indices are 0, 512
  and 64, so \<open>update\<close> puts all three sites into the even class: one step in direction 0
  or 1 does not change the class. The update of link \<open>(0,0,0,0;0)\<close> needs links of that
  same class: its local action changes when link \<open>(1,0,0,0;1)\<close> of the neighbour changes,
  and when link \<open>(0,0,0,0;1)\<close> of its own site changes.
\<close>

theorem index_parity_same_class:
  "wrap_loop 8 [0, 0, 0, 0] [1, 0, 0, 0] [0, 1, 0, 0]
       = Inr ([0, 0, 0, 0], [1, 0, 0, 0], [0, 1, 0, 0])
   \<and> site_index 8 [0, 0, 0, 0] = 0 \<and> site_index 8 [1, 0, 0, 0] = 512
   \<and> site_index 8 [0, 1, 0, 0] = 64
   \<and> even_site 8 [0, 0, 0, 0] \<and> even_site 8 [1, 0, 0, 0] \<and> even_site 8 [0, 1, 0, 0]
   \<and> Si default_cold [0, 0, 0, 0, 0] = Inr (- 33)
   \<and> Si (link_set default_cold [1, 0, 0, 0] 1 flipR) [0, 0, 0, 0, 0] = Inr (- 77 / 3)
   \<and> Si (link_set default_cold [0, 0, 0, 0] 1 flipR) [0, 0, 0, 0, 0] = Inr (- 77 / 3)"
proof -
  have w: "wrap_loop 8 [0, 0, 0, 0] [1, 0, 0, 0] [0, 1, 0, 0]
       = Inr ([0, 0, 0, 0], [1, 0, 0, 0], [0, 1, 0, 0])"
    by (simp add: lattice_mod_eq add_int_def int_ok_def)
  have p: "site_index 8 [0, 0, 0, 0] = 0" "site_index 8 [1, 0, 0, 0] = 512"
      "site_index 8 [0, 1, 0, 0] = 64"
      "even_site 8 [0, 0, 0, 0]" "even_site 8 [1, 0, 0, 0]" "even_site 8 [0, 1, 0, 0]"
    by (simp_all add: site_index_def even_site_iff)
  have s0: "Si default_cold [0, 0, 0, 0, 0] = Inr (- 33)"
    unfolding Si_eq [OF default_cold_ok(3,4,5)]
    by (simp add: local_action_def plaquette_def U_def default_cold_sel Identity_def other_dirs)
  have s1: "Si (link_set default_cold [1, 0, 0, 0] 1 flipR) [0, 0, 0, 0, 0] = Inr (- 77 / 3)"
    unfolding Si_eq [OF default_cold_ok(1,2,5)]
    by (simp add: local_action_def plaquette_def U_def default_cold_sel Identity_def other_dirs
        flipR_def link_addr_def move_def wrap_def)
  have s2: "Si (link_set default_cold [0, 0, 0, 0] 1 flipR) [0, 0, 0, 0, 0] = Inr (- 77 / 3)"
    unfolding Si_eq [OF default_cold_ok(1,2,5)]
    by (simp add: local_action_def plaquette_def U_def default_cold_sel Identity_def other_dirs
        flipR_def link_addr_def move_def wrap_def)
  show ?thesis using w p s0 s1 s2 by simp
qed

subsection \<open>The average plaquette\<close>

lemma plaquette_sym: "plaquette L x mu nu = plaquette L x nu mu"
proof -
  let ?A = "U L mu x" and ?B = "U L nu (move x mu 1)"
  let ?C = "U L mu (move x nu 1)" and ?D = "U L nu x"
  have "mmul (mmul (mmul ?D ?C) (adjoint ?B)) (adjoint ?A)
      = adjoint (mmul (mmul (mmul ?A ?B) (adjoint ?C)) (adjoint ?D))"
    by (simp add: adjoint_mmul adjoint_adjoint mmul_assoc)
  then show ?thesis by (simp add: plaquette_def trace_adjoint)
qed

lemma sites_product:
  "sites d = map (\<lambda>(i, j, k, l). [i, j, k, l])
     (List.product [0..d - 1] (List.product [0..d - 1] (List.product [0..d - 1] [0..d - 1])))"
  by (simp add: sites_def product_concat_map map_concat comp_def)

lemma set_sites:
  "set (sites d) = {[i, j, k, l] | i j k l.
      0 \<le> i \<and> i < d \<and> 0 \<le> j \<and> j < d \<and> 0 \<le> k \<and> k < d \<and> 0 \<le> l \<and> l < d}"
  unfolding sites_product by (auto simp: image_iff)

lemma distinct_sites: "distinct (sites d)"
  unfolding sites_product
  by (rule distinct_map [THEN iffD2]) (auto simp: distinct_product inj_on_def)

lemma length_sites: "0 \<le> d \<Longrightarrow> length (sites d) = nat d ^ 4"
  by (simp add: sites_product power4_eq_xxxx)

lemma site_ok_sites:
  assumes "int_ok d" and "s \<in> set (sites d)"
  shows "site_ok s"
  using assms by (auto simp: set_sites site_ok_def int_ok_def)

lemma sum_list_concat_map:
  "sum_list (concat xss) = (\<Sum>xs\<leftarrow>xss. sum_list (xs :: real list))"
  by (induction xss) simp_all

lemma Pav_loop_eq:
  assumes "0 < n L" and "int_ok (n L)"
  shows "list_all (\<lambda>(s, m). site_ok s \<and> m < 6) xs \<Longrightarrow>
    Pav_loop L xs acc = Inr (acc + (\<Sum>(s, m)\<leftarrow>xs. plaquette L s (mus ! m) (nus ! m)))"
proof (induction xs arbitrary: acc)
  case Nil
  then show ?case by simp
next
  case (Cons a xs)
  obtain s m where a: "a = (s, m)" by (cases a)
  have m: "m < 6" and s: "site_ok s" using Cons.prems by (simp_all add: a)
  have "m = 0 \<or> m = 1 \<or> m = 2 \<or> m = 3 \<or> m = 4 \<or> m = 5" using m by arith
  then have dirs: "0 \<le> mus ! m" "mus ! m < 4" "0 \<le> nus ! m" "nus ! m < 4"
    by (auto simp: mus_def nus_def)
  have "P L s (mus ! m) (nus ! m) = Inr (plaquette L s (mus ! m) (nus ! m))"
    by (rule P_plaquette_eq [OF assms s dirs])
  then show ?case using Cons.IH [of "acc + plaquette L s (mus ! m) (nus ! m)"] Cons.prems
    by (simp add: a algebra_simps)
qed

text \<open>
  The code passes the pairs as \<open>(mus[m], nus[m])\<close>, that is \<open>(1,0), (2,0), (3,0), (2,1),
  (3,1), (3,2)\<close>; the plaquette is symmetric in its two directions.
\<close>

lemma inner_pairs:
  "(\<Sum>m\<leftarrow>[0..<6]. plaquette L s (mus ! m) (nus ! m))
     = (\<Sum>(mu, nu)\<leftarrow>pairs. plaquette L s mu nu)"
proof -
  have "[0..<6] = [0, 1, 2, 3, 4, 5]" by (simp add: upt_rec)
  then show ?thesis
    by (simp add: mus_def nus_def pairs_def plaquette_sym [of L s 1 0]
        plaquette_sym [of L s 2 0] plaquette_sym [of L s 3 0] plaquette_sym [of L s 2 1]
        plaquette_sym [of L s 3 1] plaquette_sym [of L s 3 2])
qed

lemma Pav_eq:
  assumes "0 < n L" and "int_ok (n L)"
  shows "Pav L = Inr (average_plaquette L)"
proof -
  let ?xs = "concat (map (\<lambda>site. map (\<lambda>m. (site, m)) [0..<6]) (sites (n L)))"
  have ok: "list_all (\<lambda>(s, m). site_ok s \<and> m < 6) ?xs"
    using site_ok_sites [OF assms(2)] by (auto simp: list_all_iff)
  have "(\<Sum>(s, m)\<leftarrow>?xs. plaquette L s (mus ! m) (nus ! m))
      = (\<Sum>s\<leftarrow>sites (n L). \<Sum>m\<leftarrow>[0..<6]. plaquette L s (mus ! m) (nus ! m))"
    by (simp add: map_concat sum_list_concat_map comp_def)
  also have "\<dots> = (\<Sum>s\<leftarrow>sites (n L). \<Sum>(mu, nu)\<leftarrow>pairs. plaquette L s mu nu)"
    by (simp only: inner_pairs)
  finally have sum: "(\<Sum>(s, m)\<leftarrow>?xs. plaquette L s (mus ! m) (nus ! m))
      = (\<Sum>s\<leftarrow>sites (n L). \<Sum>(mu, nu)\<leftarrow>pairs. plaquette L s mu nu)" .
  show ?thesis
    unfolding Pav_def Pav_loop_eq [OF assms ok] using assms(1)
    by (simp add: sum average_plaquette_def)
qed

lemma sites2:
  "sites 2 = [[0,0,0,0], [0,0,0,1], [0,0,1,0], [0,0,1,1], [0,1,0,0], [0,1,0,1], [0,1,1,0],
     [0,1,1,1], [1,0,0,0], [1,0,0,1], [1,0,1,0], [1,0,1,1], [1,1,0,0], [1,1,0,1], [1,1,1,0],
     [1,1,1,1]]"
  by (simp add: sites_def upto_rec1)

text \<open>
  Claim C8. For an extent \<open>n > 0\<close>, \<open>Pav\<close> returns the sum of the plaquette over the sites
  and over the six pairs \<open>(0,1), (0,2), (0,3), (1,2), (1,3), (2,3)\<close>, divided by
  \<open>n\<^sup>4 \<times> 6\<close>; the sites summed over are the \<open>n\<^sup>4\<close> sites of the lattice, each once.
  \<open>Pav\<close> and \<open>P\<close> assign to no member of the lattice, so the model gives them the lattice
  and gets back a value only: the links after the call are the links before it, and a
  second call on them returns the same value.
\<close>

theorem Pav_average:
  assumes "0 < n L" and "int_ok (n L)"
  shows "Pav L = Inr ((\<Sum>x\<leftarrow>sites (n L). \<Sum>(mu, nu)\<leftarrow>[(0, 1), (0, 2), (0, 3), (1, 2), (1, 3), (2, 3)].
                          plaquette L x mu nu) / (real_of_int (n L) ^ 4 * 6))
     \<and> (\<forall>x \<in> set (sites (n L)). \<forall>(mu, nu) \<in> set [(0, 1), (0, 2), (0, 3), (1, 2), (1, 3), (2, 3)].
           P L x mu nu = Inr (plaquette L x mu nu))
     \<and> distinct (sites (n L)) \<and> length (sites (n L)) = nat (n L) ^ 4
     \<and> set (sites (n L)) = {[i, j, k, l] | i j k l.
          0 \<le> i \<and> i < n L \<and> 0 \<le> j \<and> j < n L \<and> 0 \<le> k \<and> k < n L \<and> 0 \<le> l \<and> l < n L}"
proof -
  have "P L x mu nu = Inr (plaquette L x mu nu)"
    if "x \<in> set (sites (n L))" "(mu, nu) \<in> set [(0, 1), (0, 2), (0, 3), (1, 2), (1, 3), (2, 3)]"
    for x mu nu
    using that(2) by (intro P_plaquette_eq assms site_ok_sites [OF assms(2) that(1)]) auto
  then have "\<forall>x \<in> set (sites (n L)). \<forall>(mu, nu) \<in> set [(0, 1), (0, 2), (0, 3), (1, 2), (1, 3), (2, 3)].
           P L x mu nu = Inr (plaquette L x mu nu)"
    by blast
  then show ?thesis
    using Pav_eq [OF assms] assms(1) distinct_sites [of "n L"] length_sites [of "n L"]
      set_sites [of "n L"]
    by (simp add: average_plaquette_def pairs_def)
qed

theorem Pav_average_witness:
  "0 < n (cold_lattice (11 / 2)) \<and> int_ok (n (cold_lattice (11 / 2)))
   \<and> Pav (cold_lattice (11 / 2)) = Inr 1 \<and> length (sites (n (cold_lattice (11 / 2)))) = 16
   \<and> [1, 0, 1, 1] \<in> set (sites (n (cold_lattice (11 / 2))))
   \<and> P (cold_lattice (11 / 2)) [1, 0, 1, 1] 1 3 = Inr 1"
proof -
  note t = Pav_average [OF cold_lattice_ok(1,2), of "11 / 2"]
  have s: "[1, 0, 1, 1] \<in> set (sites (n (cold_lattice (11 / 2))))"
    by (simp add: cold_lattice_sel sites2)
  have "P (cold_lattice (11 / 2)) [1, 0, 1, 1] 1 3
      = Inr (plaquette (cold_lattice (11 / 2)) [1, 0, 1, 1] 1 3)"
    using t s by fastforce
  then show ?thesis
    using t s cold_lattice_ok(1,2) [of "11 / 2"]
    by (simp add: plaquette_cold cold_lattice_sel sites2)
qed

subsection \<open>The two phases of \<open>update\<close>\<close>

lemma spawn_site_eq:
  assumes "length (even_threads T) = 4" and "length (odd_threads T) = 4"
  shows "trace_ev (spawn_site d T s)
       = trace_ev T @ map Spawn (map (\<lambda>m. s @ [int m]) [0, 1, 2, 3])"
    and "even_threads (spawn_site d T s) =
       (if even_site d s then map (\<lambda>m. even_threads T ! m @ [s @ [int m]]) [0, 1, 2, 3]
        else even_threads T)"
    and "odd_threads (spawn_site d T s) =
       (if even_site d s then odd_threads T
        else map (\<lambda>m. odd_threads T ! m @ [s @ [int m]]) [0, 1, 2, 3])"
proof -
  obtain e0 e1 e2 e3 where e: "even_threads T = [e0, e1, e2, e3]"
    using assms(1) by (rule length4E)
  obtain o0 o1 o2 o3 where o: "odd_threads T = [o0, o1, o2, o3]"
    using assms(2) by (rule length4E)
  show "trace_ev (spawn_site d T s)
       = trace_ev T @ map Spawn (map (\<lambda>m. s @ [int m]) [0, 1, 2, 3])"
    by (simp add: spawn_site_def spawn_link_def Let_def)
  show "even_threads (spawn_site d T s) =
       (if even_site d s then map (\<lambda>m. even_threads T ! m @ [s @ [int m]]) [0, 1, 2, 3]
        else even_threads T)"
    by (simp add: spawn_site_def spawn_link_def Let_def e)
  show "odd_threads (spawn_site d T s) =
       (if even_site d s then odd_threads T
        else map (\<lambda>m. odd_threads T ! m @ [s @ [int m]]) [0, 1, 2, 3])"
    by (simp add: spawn_site_def spawn_link_def Let_def o)
qed

lemma spawn_phase:
  "trace_ev (foldl (spawn_site d)
       \<lparr>trace_ev = [], even_threads = replicate 4 [], odd_threads = replicate 4 []\<rparr> ss)
     = map Spawn (all_links ss)
   \<and> even_threads (foldl (spawn_site d)
       \<lparr>trace_ev = [], even_threads = replicate 4 [], odd_threads = replicate 4 []\<rparr> ss)
     = map (class_links d True ss) [0, 1, 2, 3]
   \<and> odd_threads (foldl (spawn_site d)
       \<lparr>trace_ev = [], even_threads = replicate 4 [], odd_threads = replicate 4 []\<rparr> ss)
     = map (class_links d False ss) [0, 1, 2, 3]"
proof (induction ss rule: rev_induct)
  case Nil
  show ?case by (simp add: all_links_def class_links_def eval_nat_numeral)
next
  case (snoc s ss)
  let ?T = "foldl (spawn_site d)
       \<lparr>trace_ev = [], even_threads = replicate 4 [], odd_threads = replicate 4 []\<rparr> ss"
  have len: "length (even_threads ?T) = 4" "length (odd_threads ?T) = 4"
    using snoc.IH by simp_all
  show ?case
    using snoc.IH
    by (simp add: spawn_site_eq [OF len] all_links_def class_links_def)
qed

lemma join_loop_eq:
  "join_loop ths [i..<cnt] evs =
     (if cnt \<le> length ths \<or> cnt \<le> i then Inr (evs @ map Join (take (cnt - i) (drop i ths)))
      else Inl OutOfBounds)"
proof (induction "cnt - i" arbitrary: i evs)
  case 0
  then show ?case by simp
next
  case (Suc k)
  then have lt: "i < cnt" and k: "k = cnt - Suc i" by simp_all
  have upt: "[i..<cnt] = i # [Suc i..<cnt]" using lt by (simp add: upt_rec)
  show ?case
  proof (cases "i < length ths")
    case True
    have "take (cnt - i) (drop i ths) = ths ! i # take (cnt - Suc i) (drop (Suc i) ths)"
      using True lt
      by (simp add: Cons_nth_drop_Suc [symmetric] Suc_diff_Suc [symmetric] del: Suc_diff_Suc)
    then show ?thesis
      using True lt Suc.hyps(1) [OF k, of "evs @ [Join (ths ! i)]"]
      by (auto simp: upt)
  next
    case False
    then show ?thesis using lt by (simp add: upt)
  qed
qed

lemma join_all_eq:
  "list_all (\<lambda>j. cnt \<le> length (tss ! j)) js \<Longrightarrow>
   join_all tss cnt js evs = Inr (evs @ map Join (concat (map (\<lambda>j. take cnt (tss ! j)) js)))"
  by (induction js arbitrary: evs) (simp_all add: join_loop_eq [where i = 0, simplified])

text \<open>
  The whole trace: every thread of both classes is constructed, and only then are threads
  joined, the odd class first.
\<close>

lemma update_eq:
  assumes "int_ok (d * d * d * d)"
    and "nat (d * d * d * d sdiv 2) \<le> length (filter (\<lambda>s. even_site d s = False) (sites d))"
    and "nat (d * d * d * d sdiv 2) \<le> length (filter (\<lambda>s. even_site d s = True) (sites d))"
  shows "update d = Inr (map Spawn (all_links (sites d))
            @ map Join (joined d False) @ map Join (joined d True))"
proof -
  let ?T = "foldl (spawn_site d)
       \<lparr>trace_ev = [], even_threads = replicate 4 [], odd_threads = replicate 4 []\<rparr> (sites d)"
  let ?cnt = "nat (d * d * d * d sdiv 2)"
  note sp = spawn_phase [of d "sites d"]
  have o: "list_all (\<lambda>j. ?cnt \<le> length (odd_threads ?T ! j)) [0, 1, 2, 3]"
    using assms(2) by (simp add: sp class_links_def)
  have e: "list_all (\<lambda>j. ?cnt \<le> length (even_threads ?T ! j)) [0, 1, 2, 3]"
    using assms(3) by (simp add: sp class_links_def)
  have "update d = bind_f (join_all (odd_threads ?T) ?cnt [0, 1, 2, 3] (trace_ev ?T))
      (\<lambda>evs. join_all (even_threads ?T) ?cnt [0, 1, 2, 3] evs)"
    by (simp only: update_def Let_def assms(1) not_True_eq_False if_False)
  also have "\<dots> = Inr ((trace_ev ?T
        @ map Join (concat (map (\<lambda>j. take ?cnt (odd_threads ?T ! j)) [0, 1, 2, 3])))
        @ map Join (concat (map (\<lambda>j. take ?cnt (even_threads ?T ! j)) [0, 1, 2, 3])))"
    by (simp only: join_all_eq [OF o] join_all_eq [OF e] bind_f_Inr)
  also have "\<dots> = Inr (map Spawn (all_links (sites d))
            @ map Join (joined d False) @ map Join (joined d True))"
    by (simp add: sp joined_def)
  finally show ?thesis .
qed

text \<open>
  Claim C3 at extent 2. The calling thread constructs, and thereby starts, all 64 threads
  of both parity classes, beginning with the thread for link \<open>(0,0,0,0;0)\<close> of the even
  class; the first join, of the odd-class thread for link \<open>(0,0,0,1;0)\<close>, comes after all
  of them. The even class, which is joined last, has therefore been started before any
  update of the odd class is known to have completed.
\<close>

theorem update_spawns_before_join:
  "update 2 = Inr (map Spawn (all_links (sites 2))
            @ map Join (joined 2 False) @ map Join (joined 2 True))
   \<and> length (all_links (sites 2)) = 64
   \<and> hd (all_links (sites 2)) = [0, 0, 0, 0, 0] \<and> even_site 2 [0, 0, 0, 0]
   \<and> hd (joined 2 False) = [0, 0, 0, 1, 0] \<and> \<not> even_site 2 [0, 0, 0, 1]"
proof -
  have "update 2 = Inr (map Spawn (all_links (sites 2))
            @ map Join (joined 2 False) @ map Join (joined 2 True))"
    by (rule update_eq) (simp_all add: int_ok_def sites2 even_site_iff signed_divide_int_def)
  moreover have "length (all_links (sites 2)) = 64" "hd (all_links (sites 2)) = [0, 0, 0, 0, 0]"
    by (simp_all add: sites2 all_links_def)
  moreover have "hd (joined 2 False) = [0, 0, 0, 1, 0]"
    by (simp add: joined_def class_links_def sites2 even_site_iff signed_divide_int_def)
  ultimately show ?thesis by (simp add: even_site_iff)
qed

subsection \<open>The random group element\<close>

lemma determinant_mmul: "determinant (mmul A B) = determinant A * determinant B"
  by (cases A; cases B) (simp add: algebra_simps)

lemma determinant_adjoint: "determinant (adjoint A) = cnj (determinant A)"
  by (cases A) (simp add: algebra_simps)

lemma determinant_Identity: "determinant Identity = 1"
  by (simp add: Identity_def)

lemma unitary_det:
  assumes "unitary Q"
  shows "determinant Q * cnj (determinant Q) = 1"
proof -
  have "determinant (mmul Q (adjoint Q)) = 1"
    using assms by (simp add: unitary_def determinant_Identity)
  then show ?thesis by (simp add: determinant_mmul determinant_adjoint)
qed

text \<open>The principal cube root is a cube root.\<close>

lemma pow_c_cube:
  assumes "z \<noteq> 0"
  shows "pow_c z (1 / 3) ^ 3 = z"
proof -
  have "(cmod z powr (1 / 3)) ^ 3 = cmod z"
    using assms by (simp add: powr_power)
  then have "pow_c z (1 / 3) ^ 3 = rcis (cmod z) (Arg z)"
    using assms by (simp add: pow_c_def DeMoivre2)
  then show ?thesis by (simp add: rcis_cmod_Arg)
qed

lemma cube_unit:
  assumes "c ^ 3 = d" and "d * cnj d = 1"
  shows "c * cnj c = 1" and "c \<noteq> 0"
proof -
  have "cmod d ^ 2 = 1"
    using assms(2) by (metis complex_norm_square of_real_eq_1_iff)
  then have nd: "cmod d = 1" using norm_ge_zero [of d] by (auto simp: power2_eq_1_iff)
  have "cmod c ^ 3 = 1" using assms(1) nd by (metis norm_power)
  then have nc: "cmod c = 1"
    by (metis norm_ge_zero power_eq_imp_eq_base power_one zero_le_one zero_less_numeral)
  then show "c * cnj c = 1" using complex_norm_square [of c] by simp
  show "c \<noteq> 0" using nc by auto
qed

lemma adjoint_mdiv: "adjoint (mdiv Q c) = mdiv (adjoint Q) (cnj c)"
  by (cases Q) simp

lemma mmul_mdiv: "mmul (mdiv A c) (mdiv B e) = mdiv (mmul A B) (c * e)"
  by (cases A; cases B) (simp add: add_divide_distrib)

lemma mdiv_one: "mdiv A 1 = A"
  by (cases A) simp

lemma determinant_mdiv: "c \<noteq> 0 \<Longrightarrow> determinant (mdiv Q c) = determinant Q / c ^ 3"
  by (cases Q) (simp add: field_simps power3_eq_cube)

text \<open>
  Dividing a unitary matrix by a cube root of its determinant gives a special-unitary
  matrix: the determinant has modulus one, hence so has the root.
\<close>

lemma mdiv_special_unitary:
  assumes "unitary Q" and "c ^ 3 = determinant Q"
  shows "special_unitary (mdiv Q c)"
proof -
  note u = cube_unit [OF assms(2) unitary_det [OF assms(1)]]
  have cc: "cnj c * c = 1" using u(1) by (simp add: mult.commute)
  have "unitary (mdiv Q c)"
    using assms(1) by (simp add: unitary_def adjoint_mdiv mmul_mdiv u(1) cc mdiv_one)
  moreover have "determinant (mdiv Q c) = 1"
    using u(2) by (simp add: determinant_mdiv assms(2) [symmetric])
  ultimately show ?thesis by (simp add: special_unitary_def)
qed

lemma randomSU3_shape:
  "\<exists>B s9. randomSU3 E hhQ L rs =
      (let Q = hhQ B; c = pow_c (determinant Q) (1 / 3)
       in if c = 0 then Inl NotANumber else Inr (mdiv Q c, s9))"
  unfolding randomSU3_def Let_def by (simp split: prod.splits) blast

lemma unitary_factor_unitary: "unitary (unitary_factor B)"
  using special_unitary_Identity by (simp add: unitary_factor_def special_unitary_def)

text \<open>
  Claim C9, with reals for doubles, so that the tolerance is equality. Eigen documents
  \<^verbatim>\<open>householderQ()\<close> as the unitary factor of the decomposition. For every such factor,
  every step size \<open>eps\<close> (every lattice), every state of the generator and every C
  library, \<open>randomSU3\<close> returns a matrix \<open>M\<close> with \<open>M M\<^sup>\<dagger> = I\<close>, \<open>M\<^sup>\<dagger> M = I\<close> and determinant 1.
\<close>

theorem randomSU3_special_unitary:
  assumes "\<forall>B. unitary (hhQ B)"
  shows "\<exists>M rs'. randomSU3 E hhQ L rs = Inr (M, rs')
     \<and> mmul M (adjoint M) = Identity \<and> mmul (adjoint M) M = Identity \<and> determinant M = 1"
proof -
  obtain B s9 where r: "randomSU3 E hhQ L rs =
      (let Q = hhQ B; c = pow_c (determinant Q) (1 / 3)
       in if c = 0 then Inl NotANumber else Inr (mdiv Q c, s9))"
    using randomSU3_shape by blast
  let ?Q = "hhQ B" and ?c = "pow_c (determinant (hhQ B)) (1 / 3)"
  have uq: "unitary ?Q" using assms by simp
  have "determinant ?Q \<noteq> 0" using unitary_det [OF uq] by auto
  then have c3: "?c ^ 3 = determinant ?Q" by (rule pow_c_cube)
  have c0: "?c \<noteq> 0" by (rule cube_unit(2) [OF c3 unitary_det [OF uq]])
  have "special_unitary (mdiv ?Q ?c)" by (rule mdiv_special_unitary [OF uq c3])
  then show ?thesis
    using r c0 by (simp add: Let_def special_unitary_def unitary_def)
qed

lemma Arg_one: "Arg 1 = 0"
  by (rule cis_Arg_unique) simp_all

lemma pow_c_one: "pow_c 1 y = 1"
  by (simp add: pow_c_def Arg_one rcis_def)

lemma rand_entry_zero: "rand_entry libc (sconst 0) = (0, sconst 0)"
  by (simp add: rand_entry_def rand_def libc_sel Let_def)

text \<open>
  With every draw 0 the matrix \<open>A\<close> is zero and \<open>B\<close> the identity, whose unitary factor is
  the identity.
\<close>

lemma randomSU3_zero_draws:
  "randomSU3 libc unitary_factor (cold_lattice (11 / 2)) (sconst 0) = Inr (Identity, sconst 0)"
proof -
  have B: "madd Identity (Mat 0 0 0 0 0 0 0 0 0) = Identity"
    by (simp add: Identity_def)
  have Q: "unitary_factor Identity = Identity"
    using special_unitary_Identity by (simp add: unitary_factor_def special_unitary_def)
  show ?thesis
    by (simp add: randomSU3_def rand_entry_zero B Q determinant_Identity pow_c_one mdiv_one
        Let_def)
qed

theorem randomSU3_special_unitary_witness:
  "(\<forall>B. unitary (unitary_factor B))
   \<and> randomSU3 libc unitary_factor (cold_lattice (11 / 2)) (sconst 0) = Inr (Identity, sconst 0)
   \<and> mmul Identity (adjoint Identity) = Identity \<and> mmul (adjoint Identity) Identity = Identity
   \<and> determinant Identity = 1"
proof -
  have h: "\<forall>B. unitary (unitary_factor B)" by (simp add: unitary_factor_unitary)
  show ?thesis
    using randomSU3_special_unitary [OF h, of libc "cold_lattice (11 / 2)" "sconst 0"] h
    by (simp add: randomSU3_zero_draws)
qed

end
